theory Spec2Isabelle
  imports Main "HOL-Library.Sublist"
begin

section \<open>Values and virtual elements\<close>

text \<open>
  The runtime of \<^verbatim>\<open>src/lib/teact/teact.ts\<close> works on JavaScript values of type
  \<^verbatim>\<open>any\<close>. Objects are compared by reference (\<^verbatim>\<open>===\<close>), so every object
  of the model carries the address it was allocated at: an array is its address together
  with its elements, a virtual element carries its address as first argument. The module
  never writes to an array or to an element once it is built, so the contents can travel
  with the address. Numbers are \<^verbatim>\<open>NaN\<close>, the one value that is not strictly
  equal to itself, and the integers: \<open>VNum n\<close> stands for the double that holds the
  integer \<open>n\<close> exactly, so for \<open>n\<close> in the safe range, below \<open>2 ^ 53\<close> in
  absolute value. Fractions and infinities are left out.
\<close>

type_synonym addr = nat
type_synonym fref = nat
type_synonym cbref = nat

datatype VirtualElementTypesEnum = TypeEmpty | TypeText | TypeTag | TypeComponent | TypeFragment

datatype jsval =
    VUndefined
  | VNull
  | VBool bool
  | VNum int
  | VNaN
  | VStr string
  | VObj addr
  | VArr addr "jsval list"
  | VEl velement
and velement =
    VirtualElementEmpty addr
  | VirtualElementText addr string
  | VirtualElementTag addr string "(string \<times> jsval) list" "velement list"
  | VirtualElementComponent addr addr "(string \<times> jsval) list option" "velement list"
  | VirtualElementFragment addr "velement list"

type_synonym Props = "(string \<times> jsval) list"

text \<open>
  The optional \<^verbatim>\<open>target\<close> field of an element is written by the external patcher
  only and is left out. \<^verbatim>\<open>VirtualElementComponent a i p cs\<close> is the element at
  address \<open>a\<close> whose \<^verbatim>\<open>componentInstance\<close> is the instance stored at \<open>i\<close>.
\<close>

fun el_type :: "velement \<Rightarrow> VirtualElementTypesEnum" where
  "el_type (VirtualElementEmpty a) = TypeEmpty"
| "el_type (VirtualElementText a v) = TypeText"
| "el_type (VirtualElementTag a t p cs) = TypeTag"
| "el_type (VirtualElementComponent a i p cs) = TypeComponent"
| "el_type (VirtualElementFragment a cs) = TypeFragment"

fun el_addr :: "velement \<Rightarrow> addr" where
  "el_addr (VirtualElementEmpty a) = a"
| "el_addr (VirtualElementText a v) = a"
| "el_addr (VirtualElementTag a t p cs) = a"
| "el_addr (VirtualElementComponent a i p cs) = a"
| "el_addr (VirtualElementFragment a cs) = a"

fun el_children :: "velement \<Rightarrow> velement list" where
  "el_children (VirtualElementEmpty a) = []"
| "el_children (VirtualElementText a v) = []"
| "el_children (VirtualElementTag a t p cs) = cs"
| "el_children (VirtualElementComponent a i p cs) = cs"
| "el_children (VirtualElementFragment a cs) = cs"

text \<open>Strict equality \<^verbatim>\<open>===\<close>: primitives by value, objects by address.\<close>

definition strict_eq :: "jsval \<Rightarrow> jsval \<Rightarrow> bool" where
  "strict_eq x y =
    (case x of
       VUndefined \<Rightarrow> (case y of VUndefined \<Rightarrow> True | _ \<Rightarrow> False)
     | VNull \<Rightarrow> (case y of VNull \<Rightarrow> True | _ \<Rightarrow> False)
     | VBool a \<Rightarrow> (case y of VBool b \<Rightarrow> a = b | _ \<Rightarrow> False)
     | VNum a \<Rightarrow> (case y of VNum b \<Rightarrow> a = b | _ \<Rightarrow> False)
     | VNaN \<Rightarrow> False
     | VStr a \<Rightarrow> (case y of VStr b \<Rightarrow> a = b | _ \<Rightarrow> False)
     | VObj a \<Rightarrow> (case y of VObj b \<Rightarrow> a = b | _ \<Rightarrow> False)
     | VArr a xs \<Rightarrow> (case y of VArr b ys \<Rightarrow> a = b | _ \<Rightarrow> False)
     | VEl d \<Rightarrow> (case y of VEl e \<Rightarrow> el_addr d = el_addr e | _ \<Rightarrow> False))"

text \<open>Property lookup \<^verbatim>\<open>props.key\<close>: a missing property reads as undefined.\<close>

definition prop_get :: "Props \<Rightarrow> string \<Rightarrow> jsval" where
  "prop_get p k = (case map_of p k of None \<Rightarrow> VUndefined | Some v \<Rightarrow> v)"

text \<open>Assignment of one property, keeping the position of a property that exists.\<close>

fun prop_set :: "Props \<Rightarrow> string \<Rightarrow> jsval \<Rightarrow> Props" where
  "prop_set [] k v = [(k, v)]"
| "prop_set ((k', v') # p) k v = (if k' = k then (k, v) # p else (k', v') # prop_set p k v)"

text \<open>Truthiness, as \<^verbatim>\<open>parsedChildren && ...\<close> tests it.\<close>

fun truthy :: "jsval \<Rightarrow> bool" where
  "truthy VUndefined = False"
| "truthy VNull = False"
| "truthy (VBool b) = b"
| "truthy (VNum n) = (n \<noteq> 0)"
| "truthy VNaN = False"
| "truthy (VStr s) = (s \<noteq> [])"
| "truthy (VObj a) = True"
| "truthy (VArr a xs) = True"
| "truthy (VEl e) = True"

subsection \<open>String conversion\<close>

fun digit_char :: "nat \<Rightarrow> char" where
  "digit_char n = char_of (48 + n)"

fun nat_digits :: "nat \<Rightarrow> string" where
  "nat_digits n = (if n < 10 then [digit_char n] else nat_digits (n div 10) @ [digit_char (n mod 10)])"

definition int_digits :: "int \<Rightarrow> string" where
  "int_digits n = (if n < 0 then CHR ''-'' # nat_digits (nat (- n)) else nat_digits (nat n))"

fun join_comma :: "string list \<Rightarrow> string" where
  "join_comma [] = []"
| "join_comma [s] = s"
| "join_comma (s # t # ss) = s @ '','' @ join_comma (t # ss)"

text \<open>
  The built-in \<^verbatim>\<open>String(value)\<close>, on plain objects without a \<^verbatim>\<open>toString\<close>
  of their own; an array joins its elements, null and undefined elements as the empty string.
  An integer in the safe range prints as its decimal digits (the exponent notation of
  \<^verbatim>\<open>String\<close> starts at \<open>10 ^ 21\<close>, beyond that range).
\<close>

fun js_String :: "jsval \<Rightarrow> string" where
  "js_String VUndefined = ''undefined''"
| "js_String VNull = ''null''"
| "js_String (VBool b) = (if b then ''true'' else ''false'')"
| "js_String (VNum n) = int_digits n"
| "js_String VNaN = ''NaN''"
| "js_String (VStr s) = s"
| "js_String (VObj a) = ''[object Object]''"
| "js_String (VArr a xs) =
    join_comma (map (\<lambda>x. if x = VUndefined \<or> x = VNull then [] else js_String x) xs)"
| "js_String (VEl e) = ''[object Object]''"

subsection \<open>The element builder\<close>

fun isEmptyElement :: "velement \<Rightarrow> bool" where
  "isEmptyElement e = (el_type e = TypeEmpty)"

fun isTextElement :: "velement \<Rightarrow> bool" where
  "isTextElement e = (el_type e = TypeText)"

fun isTagElement :: "velement \<Rightarrow> bool" where
  "isTagElement e = (el_type e = TypeTag)"

fun isComponentElement :: "velement \<Rightarrow> bool" where
  "isComponentElement e = (el_type e = TypeComponent)"

fun isFragmentElement :: "velement \<Rightarrow> bool" where
  "isFragmentElement e = (el_type e = TypeFragment)"

text \<open>
  \<^verbatim>\<open>isParentElement\<close> is applied to children of type \<^verbatim>\<open>any\<close>: a value that is
  not an element object has no \<^verbatim>\<open>type\<close> property and is not a parent.
\<close>

fun isParentElement :: "jsval \<Rightarrow> bool" where
  "isParentElement (VEl e) = (isTagElement e \<or> isComponentElement e \<or> isFragmentElement e)"
| "isParentElement v = False"

fun isEmptyPlaceholder :: "jsval \<Rightarrow> bool" where
  "isEmptyPlaceholder child = (child = VBool False \<or> child = VNull \<or> child = VUndefined)"

text \<open>
  The builders allocate: they take the next free address and return it advanced.
\<close>

definition buildEmptyElement :: "addr \<Rightarrow> velement \<times> addr" where
  "buildEmptyElement n = (VirtualElementEmpty n, Suc n)"

definition buildTextElement :: "jsval \<Rightarrow> addr \<Rightarrow> velement \<times> addr" where
  "buildTextElement v n = (VirtualElementText n (js_String v), Suc n)"

definition buildChildElement :: "jsval \<Rightarrow> addr \<Rightarrow> velement \<times> addr" where
  "buildChildElement child n =
    (if isEmptyPlaceholder child then buildEmptyElement n
     else if isParentElement child then (case child of VEl e \<Rightarrow> (e, n) | _ \<Rightarrow> buildTextElement child n)
     else buildTextElement child n)"

text \<open>\<^verbatim>\<open>children.map(buildChildElement)\<close>, left to right.\<close>

fun map_build :: "jsval list \<Rightarrow> addr \<Rightarrow> velement list \<times> addr" where
  "map_build [] n = ([], n)"
| "map_build (c # cs) n =
    (case buildChildElement c n of (e, n') \<Rightarrow>
      (case map_build cs n' of (es, n'') \<Rightarrow> (e # es, n'')))"

text \<open>
  The loop of \<^verbatim>\<open>dropEmptyTail\<close>: from index \<open>i\<close> downwards to the first child
  that is not a placeholder, or to \<open>-1\<close>.
\<close>

function dropEmptyTail_loop :: "jsval list \<Rightarrow> int \<Rightarrow> int" where
  "dropEmptyTail_loop children i =
    (if i \<ge> 0 then
       (if \<not> isEmptyPlaceholder (children ! nat i) then i
        else dropEmptyTail_loop children (i - 1))
     else i)"
  by pat_completeness auto
termination
  by (relation "measure (\<lambda>(children, i). nat (i + 1))") auto

declare dropEmptyTail_loop.simps [simp del]

definition dropEmptyTail :: "jsval list \<Rightarrow> bool \<Rightarrow> jsval list" where
  "dropEmptyTail children noEmpty =
    (let i = dropEmptyTail_loop children (int (length children) - 1) in
     if i = int (length children) - 1 then children
     else if i = - 1 \<and> noEmpty then take 1 children
     else take (nat (i + 1)) children)"

definition buildFragmentElement :: "jsval list \<Rightarrow> addr \<Rightarrow> velement \<times> addr" where
  "buildFragmentElement children n =
    (case map_build (dropEmptyTail children True) n of
      (cs, n') \<Rightarrow> (VirtualElementFragment n' cs, Suc n'))"

definition buildTagElement :: "string \<Rightarrow> Props \<Rightarrow> jsval list \<Rightarrow> addr \<Rightarrow> velement \<times> addr" where
  "buildTagElement tag props children n =
    (case map_build (dropEmptyTail children False) n of
      (cs, n') \<Rightarrow> (VirtualElementTag n' tag props cs, Suc n'))"

section \<open>Component instances and the module state\<close>

text \<open>
  A callback or a render function is user code. It is referred to by a reference
  (\<open>cbref\<close>, \<open>fref\<close>), which is what the instance stores and what
  \<^verbatim>\<open>!==\<close> compares; the code behind a reference is looked up in a table that
  the operations take as a parameter.
\<close>

record StateHook =
  sValue :: jsval
  nextValue :: jsval
  setter :: "fref option"

record EffectHook =
  dependencies :: "jsval list option"
  schedule :: "cbref option"
  cleanup :: "cbref option"
  releaseSignals :: "cbref option"

record MemoHook =
  mValue :: jsval
  mDependencies :: "jsval list option"

record RefHook =
  current :: jsval

record 'a HookStore =
  cursor :: nat
  byCursor :: "'a list"

record Hooks =
  state :: "StateHook HookStore"
  effects :: "EffectHook HookStore"
  memos :: "MemoHook HookStore"
  refs :: "RefHook HookStore"

record ComponentInstance =
  inst_id :: int
  element :: "velement option"
  Component :: "fref option"
  name :: string
  props :: "Props option"
  renderedValue :: jsval
  isMounted :: bool
  hooks :: "Hooks option"
  prepareForFrame :: "cbref option"
  forceUpdate :: "cbref option"
  onUpdate :: "cbref option"

datatype js_error = TypeError | Thrown jsval

text \<open>
  The events of the ghost field \<open>trace\<close>: the scheduler preparing or force-updating
  an instance, the runtime calling a render function or a callback.
\<close>

datatype event = EvPrepare addr | EvForceUpdate addr | EvRender addr | EvInvoke cbref

text \<open>
  The module-level variables, with the heap of instances (\<open>instances\<close>), the heap of
  \<^verbatim>\<open>Map\<close> objects (\<open>maps\<close>, in insertion order), the next free address,
  the lines written with \<^verbatim>\<open>console.error\<close>, and the ghost trace. The four queue
  variables hold the address of a \<^verbatim>\<open>Map\<close>. A \<^verbatim>\<open>Set\<close> of instances is the
  list of their addresses in insertion order.
\<close>

record runtime =
  lastComponentId :: int
  renderingInstance :: "addr option"
  instances :: "addr \<Rightarrow> ComponentInstance"
  maps :: "addr \<Rightarrow> (string \<times> cbref) list"
  nextRef :: addr
  instancesPendingUpdate :: "addr list"
  idsToExcludeFromUpdate :: "int set"
  pendingEffects :: addr
  pendingCleanups :: addr
  pendingLayoutEffects :: addr
  pendingLayoutCleanups :: addr
  areImmediateEffectsPending :: bool
  console_error :: "string list"
  trace :: "event list"

type_synonym callback = "runtime \<Rightarrow> js_error option \<times> runtime"
type_synonym render_fn = "Props option \<Rightarrow> runtime \<Rightarrow> (js_error + jsval) \<times> runtime"

record code =
  callbacks :: "cbref \<Rightarrow> callback"
  components :: "fref \<Rightarrow> render_fn"
  names :: "fref \<Rightarrow> string"

definition upd_inst :: "addr \<Rightarrow> (ComponentInstance \<Rightarrow> ComponentInstance) \<Rightarrow> runtime \<Rightarrow> runtime" where
  "upd_inst a f s = s\<lparr>instances := (instances s)(a := f (instances s a))\<rparr>"

text \<open>
  The runtime calling user code. What the user code does to the ghost trace is discarded:
  the trace holds the steps of the call under study, one event per call made by the runtime.
\<close>

definition invoke :: "code \<Rightarrow> cbref \<Rightarrow> runtime \<Rightarrow> js_error option \<times> runtime" where
  "invoke E cb s =
    (case callbacks E cb s of (r, s') \<Rightarrow> (r, s'\<lparr>trace := trace s @ [EvInvoke cb]\<rparr>))"

definition call_component ::
  "code \<Rightarrow> addr \<Rightarrow> fref \<Rightarrow> Props option \<Rightarrow> runtime \<Rightarrow> (js_error + jsval) \<times> runtime" where
  "call_component E a f p s =
    (case components E f p s of (r, s') \<Rightarrow> (r, s'\<lparr>trace := trace s @ [EvRender a]\<rparr>))"

text \<open>
  Modelled from the spec: \<^verbatim>\<open>safeExec\<close> of \<^verbatim>\<open>util/safeExec\<close>, which is not
  among the sources. The spec calls it fault isolation: the callback runs, and if it throws,
  the rescue callback (when given) runs and the error goes no further. The configuration
  \<open>'c\<close> is the module state together with the local variables the closures assign.
\<close>

definition safeExec :: "('c \<Rightarrow> js_error option \<times> 'c) \<Rightarrow> ('c \<Rightarrow> 'c) option \<Rightarrow> 'c \<Rightarrow> 'c" where
  "safeExec cb rescue c =
    (case cb c of
      (None, c') \<Rightarrow> c'
    | (Some err, c') \<Rightarrow> (case rescue of None \<Rightarrow> c' | Some r \<Rightarrow> r c'))"

definition buildComponentElement :: "addr \<Rightarrow> jsval list \<Rightarrow> runtime \<Rightarrow> velement \<times> runtime" where
  "buildComponentElement a children s =
    (case map_build (dropEmptyTail children True) (nextRef s) of
      (cs, n') \<Rightarrow>
        (VirtualElementComponent n' a (props (instances s a)) cs, s\<lparr>nextRef := Suc n'\<rparr>))"

definition new_hooks :: Hooks where
  "new_hooks =
    \<lparr>state = \<lparr>cursor = 0, byCursor = []\<rparr>, effects = \<lparr>cursor = 0, byCursor = []\<rparr>,
     memos = \<lparr>cursor = 0, byCursor = []\<rparr>, refs = \<lparr>cursor = 0, byCursor = []\<rparr>\<rparr>"

text \<open>
  \<^verbatim>\<open>parsedChildren\<close>: \<open>arr\<close> is the array that holds \<open>children\<close>.
\<close>

definition parsedChildren :: "jsval \<Rightarrow> jsval list \<Rightarrow> jsval" where
  "parsedChildren arr children =
    (if length children = 0 then VUndefined
     else if length children = 1 then hd children
     else arr)"

definition createComponentInstance ::
  "code \<Rightarrow> fref \<Rightarrow> Props \<Rightarrow> jsval \<Rightarrow> jsval list \<Rightarrow> runtime \<Rightarrow> velement \<times> runtime" where
  "createComponentInstance E f p arr children s =
    (let pc = parsedChildren arr children;
         a = nextRef s;
         inst = \<lparr>inst_id = lastComponentId s + 1, element = None, Component = Some f,
                 name = names E f,
                 props = Some (if truthy pc then prop_set p ''children'' pc else p),
                 renderedValue = VUndefined, isMounted = False, hooks = Some new_hooks,
                 prepareForFrame = None, forceUpdate = None, onUpdate = None\<rparr>;
         s1 = s\<lparr>lastComponentId := lastComponentId s + 1, nextRef := Suc a,
                instances := (instances s)(a := inst)\<rparr>
     in case buildComponentElement a [] s1 of
          (el, s2) \<Rightarrow> (el, upd_inst a (\<lambda>i. i\<lparr>element := Some el\<rparr>) s2))"

datatype Source = SrcTag string | SrcComponent fref | SrcFragment

text \<open>\<^verbatim>\<open>children.flat()\<close>: one level of arrays is spliced into a new array.\<close>

definition flat :: "jsval list \<Rightarrow> jsval list" where
  "flat children = concat (map (\<lambda>c. case c of VArr a xs \<Rightarrow> xs | _ \<Rightarrow> [c]) children)"

definition createElement ::
  "code \<Rightarrow> Source \<Rightarrow> Props option \<Rightarrow> jsval list \<Rightarrow> runtime \<Rightarrow> velement \<times> runtime" where
  "createElement E source p children0 s =
    (let children = flat children0;
         arr = VArr (nextRef s) children;
         s1 = s\<lparr>nextRef := Suc (nextRef s)\<rparr>
     in case source of
          SrcFragment \<Rightarrow>
            (case buildFragmentElement children (nextRef s1) of
              (el, n) \<Rightarrow> (el, s1\<lparr>nextRef := n\<rparr>))
        | SrcComponent f \<Rightarrow>
            createComponentInstance E f (case p of None \<Rightarrow> [] | Some q \<Rightarrow> q) arr children s1
        | SrcTag tag \<Rightarrow>
            (case buildTagElement tag (case p of None \<Rightarrow> [] | Some q \<Rightarrow> q) children (nextRef s1) of
              (el, n) \<Rightarrow> (el, s1\<lparr>nextRef := n\<rparr>)))"

section \<open>The render executor\<close>

text \<open>
  The development-only blocks under \<^verbatim>\<open>DEBUG\<close> (a constant of the configuration
  module, which is not among the sources) time the render with the wall clock and count
  renders; the model is of the build where \<^verbatim>\<open>DEBUG\<close> is false.

  The callback handed to \<^verbatim>\<open>safeExec\<close> assigns the local variable
  \<^verbatim>\<open>newRenderedValue\<close>, the first component of the configuration. Writing a cursor
  of a discarded hook container, or calling a cleared \<^verbatim>\<open>Component\<close>, is a
  \<^verbatim>\<open>TypeError\<close>, thrown inside the callback.
\<close>

definition reset_cursors :: "Hooks \<Rightarrow> Hooks" where
  "reset_cursors h =
    h\<lparr>state := (state h)\<lparr>cursor := 0\<rparr>, effects := (effects h)\<lparr>cursor := 0\<rparr>,
      memos := (memos h)\<lparr>cursor := 0\<rparr>, refs := (refs h)\<lparr>cursor := 0\<rparr>\<rparr>"

definition render_body ::
  "code \<Rightarrow> addr \<Rightarrow> fref option \<Rightarrow> Props option \<Rightarrow> jsval \<times> runtime \<Rightarrow>
    js_error option \<times> (jsval \<times> runtime)" where
  "render_body E a C p c =
    (case c of (nv, s) \<Rightarrow>
      (let s1 = s\<lparr>renderingInstance := Some a\<rparr> in
       case hooks (instances s1 a) of
         None \<Rightarrow> (Some TypeError, (nv, s1))
       | Some h \<Rightarrow>
          (let s2 = upd_inst a (\<lambda>i. i\<lparr>hooks := Some (reset_cursors h)\<rparr>) s1 in
           case C of
             None \<Rightarrow> (Some TypeError, (nv, s2))
           | Some f \<Rightarrow>
              (case call_component E a f p s2 of
                (Inl err, s3) \<Rightarrow> (Some err, (nv, s3))
              | (Inr v, s3) \<Rightarrow> (None, (v, s3))))))"

definition render_error_message :: "string \<Rightarrow> string" where
  "render_error_message n = ''[Teact] Error while rendering component '' @ n"

definition render_rescue :: "addr \<Rightarrow> jsval \<times> runtime \<Rightarrow> jsval \<times> runtime" where
  "render_rescue a c =
    (case c of (nv, s) \<Rightarrow>
      (let s1 = s\<lparr>console_error := console_error s @ [render_error_message (name (instances s a))]\<rparr>
       in (renderedValue (instances s1 a), s1)))"

text \<open>
  \<^verbatim>\<open>renderComponent\<close>, in two parts: \<open>render_attempt\<close> is the function up to
  the end of the \<^verbatim>\<open>safeExec\<close> call and yields \<^verbatim>\<open>newRenderedValue\<close>;
  the rest is the bail-out test and the rebuild. \<open>children_of\<close> is the expression
  \<^verbatim>\<open>Array.isArray(newRenderedValue) ? newRenderedValue : [newRenderedValue]\<close>.
\<close>

definition children_of :: "jsval \<Rightarrow> jsval list" where
  "children_of newRenderedValue =
    (case newRenderedValue of VArr r xs \<Rightarrow> xs | _ \<Rightarrow> [newRenderedValue])"

definition render_attempt :: "code \<Rightarrow> addr \<Rightarrow> runtime \<Rightarrow> jsval \<times> runtime" where
  "render_attempt E a s =
    (let s0 = s\<lparr>idsToExcludeFromUpdate := insert (inst_id (instances s a)) (idsToExcludeFromUpdate s)\<rparr>;
         C = Component (instances s0 a);
         p = props (instances s0 a)
     in safeExec (render_body E a C p) (Some (render_rescue a)) (VUndefined, s0))"

definition renderComponent :: "code \<Rightarrow> addr \<Rightarrow> runtime \<Rightarrow> velement option \<times> runtime" where
  "renderComponent E a s =
    (case render_attempt E a s of
       (newRenderedValue, s1) \<Rightarrow>
         if isMounted (instances s1 a) \<and> strict_eq newRenderedValue (renderedValue (instances s1 a))
         then (element (instances s1 a), s1)
         else
           (let s2 = upd_inst a (\<lambda>i. i\<lparr>renderedValue := newRenderedValue\<rparr>) s1;
                children = children_of newRenderedValue
            in case buildComponentElement a children s2 of
              (el, s3) \<Rightarrow>
                (let s4 = upd_inst a (\<lambda>i. i\<lparr>element := Some el\<rparr>) s3
                 in (element (instances s4 a), s4))))"

text \<open>
  \<^verbatim>\<open>hasElementChanged\<close>. Both arguments are element objects, so their
  \<^verbatim>\<open>typeof\<close> is the same. Reading \<^verbatim>\<open>props.key\<close> of a Component element
  whose props were cleared is a \<^verbatim>\<open>TypeError\<close>.
\<close>

definition typeof_el :: "velement \<Rightarrow> string" where
  "typeof_el e = ''object''"

definition hasElementChanged :: "runtime \<Rightarrow> velement \<Rightarrow> velement \<Rightarrow> js_error + bool" where
  "hasElementChanged s old new =
    (if typeof_el old \<noteq> typeof_el new then Inr True
     else if el_type old \<noteq> el_type new then Inr True
     else if isTextElement old \<and> isTextElement new then
       (case old of VirtualElementText a v \<Rightarrow>
         (case new of VirtualElementText b w \<Rightarrow> Inr (v \<noteq> w) | _ \<Rightarrow> Inr False)
        | _ \<Rightarrow> Inr False)
     else if isTagElement old \<and> isTagElement new then
       (case old of VirtualElementTag a t p cs \<Rightarrow>
         (case new of VirtualElementTag b u q ds \<Rightarrow>
            Inr (t \<noteq> u \<or> \<not> strict_eq (prop_get p ''key'') (prop_get q ''key''))
          | _ \<Rightarrow> Inr False)
        | _ \<Rightarrow> Inr False)
     else if isComponentElement old \<and> isComponentElement new then
       (case old of VirtualElementComponent a i p cs \<Rightarrow>
         (case new of VirtualElementComponent b j q ds \<Rightarrow>
            (if Component (instances s i) \<noteq> Component (instances s j) then Inr True
             else (case p of None \<Rightarrow> Inl TypeError
                   | Some p' \<Rightarrow>
                     (case q of None \<Rightarrow> Inl TypeError
                      | Some q' \<Rightarrow> Inr (\<not> strict_eq (prop_get p' ''key'') (prop_get q' ''key'')))))
          | _ \<Rightarrow> Inr False)
        | _ \<Rightarrow> Inr False)
     else Inr False)"

section \<open>The lifecycle controller\<close>

definition mountComponent :: "code \<Rightarrow> addr \<Rightarrow> runtime \<Rightarrow> velement option \<times> runtime" where
  "mountComponent E a s =
    (case renderComponent E a s of
      (r, s1) \<Rightarrow>
        (let s2 = upd_inst a (\<lambda>i. i\<lparr>isMounted := True\<rparr>) s1
         in (element (instances s2 a), s2)))"

text \<open>
  \<^verbatim>\<open>helpGc\<close> clears every hook record, then the container and the fields of the
  instance. On an instance whose hook container is already gone the first line throws.
\<close>

definition clear_hooks :: "Hooks \<Rightarrow> Hooks" where
  "clear_hooks h =
    h\<lparr>effects := (effects h)\<lparr>byCursor :=
         map (\<lambda>hook. hook\<lparr>schedule := None, cleanup := None, releaseSignals := None,
                           dependencies := None\<rparr>) (byCursor (effects h))\<rparr>,
      state := (state h)\<lparr>byCursor :=
         map (\<lambda>hook. hook\<lparr>sValue := VUndefined, nextValue := VUndefined, setter := None\<rparr>)
           (byCursor (state h))\<rparr>,
      memos := (memos h)\<lparr>byCursor :=
         map (\<lambda>hook. hook\<lparr>mValue := VUndefined, mDependencies := None\<rparr>) (byCursor (memos h))\<rparr>,
      refs := (refs h)\<lparr>byCursor :=
         map (\<lambda>hook. hook\<lparr>current := VUndefined\<rparr>) (byCursor (refs h))\<rparr>\<rparr>"

definition helpGc :: "addr \<Rightarrow> runtime \<Rightarrow> js_error option \<times> runtime" where
  "helpGc a s =
    (case hooks (instances s a) of
      None \<Rightarrow> (Some TypeError, s)
    | Some h \<Rightarrow>
        (let s1 = upd_inst a (\<lambda>i. i\<lparr>hooks := Some (clear_hooks h)\<rparr>) s
         in (None, upd_inst a (\<lambda>i. i\<lparr>hooks := None, element := None,
                                       renderedValue := VUndefined, Component := None,
                                       props := None, onUpdate := None\<rparr>) s1)))"

text \<open>
  \<^verbatim>\<open>array.forEach(f)\<close> on an array that the loop body cannot reach: the elements
  in order, stopping at the first one that throws.
\<close>

fun forEach :: "('a \<Rightarrow> runtime \<Rightarrow> js_error option \<times> runtime) \<Rightarrow> 'a list \<Rightarrow> runtime \<Rightarrow>
    js_error option \<times> runtime" where
  "forEach f [] s = (None, s)"
| "forEach f (x # xs) s =
    (case f x s of
      (Some err, s') \<Rightarrow> (Some err, s')
    | (None, s') \<Rightarrow> forEach f xs s')"

text \<open>
  The body of the loop of \<^verbatim>\<open>unmountComponent\<close>, on the effect record at index
  \<open>k\<close>. The source's \<^verbatim>\<open>forEach\<close> holds the array and, during a step, the
  record object; the model has no addresses for hook records and reads the record at index
  \<open>k\<close> through the instance, before and after the cleanup callback. The two agree as
  long as the callbacks of the unmount leave the effect array of the instance and its
  record objects in place (they may assign the fields of a record). When the hook container
  was discarded by \<^verbatim>\<open>helpGc\<close> in the meantime, every record was cleared first,
  so that nothing is left to run in the source either. A callback that puts another array
  or another record in place is outside the model: the source would go on with the objects
  it holds.
\<close>

definition effect_at :: "addr \<Rightarrow> nat \<Rightarrow> runtime \<Rightarrow> EffectHook option" where
  "effect_at a k s =
    (case hooks (instances s a) of
      None \<Rightarrow> None
    | Some h \<Rightarrow> (if k < length (byCursor (effects h)) then Some (byCursor (effects h) ! k) else None))"

definition clear_cleanup :: "addr \<Rightarrow> nat \<Rightarrow> runtime \<Rightarrow> runtime" where
  "clear_cleanup a k s =
    (case hooks (instances s a) of
      None \<Rightarrow> s
    | Some h \<Rightarrow>
        (if k < length (byCursor (effects h)) then
           upd_inst a (\<lambda>i. i\<lparr>hooks := Some (h\<lparr>effects := (effects h)\<lparr>byCursor :=
             (byCursor (effects h))[k := (byCursor (effects h) ! k)\<lparr>cleanup := None\<rparr>]\<rparr>\<rparr>)\<rparr>) s
         else s))"

definition unmount_effect :: "code \<Rightarrow> addr \<Rightarrow> nat \<Rightarrow> runtime \<Rightarrow> js_error option \<times> runtime" where
  "unmount_effect E a k s =
    (let s1 = (case effect_at a k s of
                 None \<Rightarrow> s
               | Some effect \<Rightarrow>
                  (case cleanup effect of
                     None \<Rightarrow> s
                   | Some cb \<Rightarrow> safeExec (invoke E cb) None s));
         s2 = clear_cleanup a k s1
     in case effect_at a k s2 of
          None \<Rightarrow> (None, s2)
        | Some effect \<Rightarrow>
           (case releaseSignals effect of
              None \<Rightarrow> (None, s2)
            | Some cb \<Rightarrow> invoke E cb s2))"

definition unmountComponent :: "code \<Rightarrow> addr \<Rightarrow> runtime \<Rightarrow> js_error option \<times> runtime" where
  "unmountComponent E a s =
    (if \<not> isMounted (instances s a) then (None, s)
     else
       (let s0 = s\<lparr>idsToExcludeFromUpdate :=
                    insert (inst_id (instances s a)) (idsToExcludeFromUpdate s)\<rparr>
        in case hooks (instances s0 a) of
             None \<Rightarrow> (Some TypeError, s0)
           | Some h \<Rightarrow>
              (case forEach (unmount_effect E a) [0..<length (byCursor (effects h))] s0 of
                 (Some err, s1) \<Rightarrow> (Some err, s1)
               | (None, s1) \<Rightarrow> helpGc a (upd_inst a (\<lambda>i. i\<lparr>isMounted := False\<rparr>) s1))))"

definition prepareComponentForFrame :: "addr \<Rightarrow> runtime \<Rightarrow> js_error option \<times> runtime" where
  "prepareComponentForFrame a s =
    (if \<not> isMounted (instances s a) then (None, s)
     else
       (case hooks (instances s a) of
          None \<Rightarrow> (Some TypeError, s)
        | Some h \<Rightarrow>
           (None, upd_inst a (\<lambda>i. i\<lparr>hooks := Some (h\<lparr>state := (state h)\<lparr>byCursor :=
              map (\<lambda>hook. hook\<lparr>sValue := nextValue hook\<rparr>) (byCursor (state h))\<rparr>\<rparr>)\<rparr>) s)))"

text \<open>
  \<^verbatim>\<open>forceUpdateComponent\<close>. Two element references differ when they are not the same
  object, or when one of them is undefined and the other is not.
\<close>

definition forceUpdateComponent :: "code \<Rightarrow> addr \<Rightarrow> runtime \<Rightarrow> js_error option \<times> runtime" where
  "forceUpdateComponent E a s =
    (if \<not> isMounted (instances s a) \<or> onUpdate (instances s a) = None then (None, s)
     else
       (let currentElement = element (instances s a) in
        case renderComponent E a s of
          (r, s1) \<Rightarrow>
            (if map_option el_addr (element (instances s1 a)) \<noteq> map_option el_addr currentElement
             then (case onUpdate (instances s1 a) of
                     None \<Rightarrow> (Some TypeError, s1)
                   | Some cb \<Rightarrow> invoke E cb s1)
             else (None, s1))))"

section \<open>The frame scheduler\<close>

text \<open>
  \<^verbatim>\<open>new Map()\<close> allocates an empty map at the next free address.
\<close>

definition new_Map :: "runtime \<Rightarrow> addr \<times> runtime" where
  "new_Map s = (nextRef s, s\<lparr>maps := (maps s)(nextRef s := []), nextRef := Suc (nextRef s)\<rparr>)"

text \<open>
  \<^verbatim>\<open>map.forEach((cb) => cb())\<close> on the map object at address \<open>m\<close>, from entry
  \<open>k\<close> on. The iteration is live: it reads the map again after every callback, so an
  entry that a callback appends to this very object is visited too, and a callback that
  keeps appending keeps the loop running. A callback that throws ends the loop.
\<close>

partial_function (option) Map_forEach ::
  "code \<Rightarrow> addr \<Rightarrow> nat \<Rightarrow> runtime \<Rightarrow> (js_error option \<times> runtime) option" where
  "Map_forEach E m k s =
    (if k < length (maps s m) then
       (case invoke E (snd (maps s m ! k)) s of
          (Some err, s') \<Rightarrow> Some (Some err, s')
        | (None, s') \<Rightarrow> Map_forEach E m (Suc k) s')
     else Some (None, s))"

declare Map_forEach.simps [code]

text \<open>
  The first two lines of each drain: the local constant takes the map that the module
  variable holds, and the variable gets a new empty map.
\<close>

definition take_pendingLayoutCleanups :: "runtime \<Rightarrow> addr \<times> runtime" where
  "take_pendingLayoutCleanups s =
    (case new_Map s of (m, s1) \<Rightarrow> (pendingLayoutCleanups s, s1\<lparr>pendingLayoutCleanups := m\<rparr>))"

definition take_pendingLayoutEffects :: "runtime \<Rightarrow> addr \<times> runtime" where
  "take_pendingLayoutEffects s =
    (case new_Map s of (m, s1) \<Rightarrow> (pendingLayoutEffects s, s1\<lparr>pendingLayoutEffects := m\<rparr>))"

definition take_pendingCleanups :: "runtime \<Rightarrow> addr \<times> runtime" where
  "take_pendingCleanups s =
    (case new_Map s of (m, s1) \<Rightarrow> (pendingCleanups s, s1\<lparr>pendingCleanups := m\<rparr>))"

definition take_pendingEffects :: "runtime \<Rightarrow> addr \<times> runtime" where
  "take_pendingEffects s =
    (case new_Map s of (m, s1) \<Rightarrow> (pendingEffects s, s1\<lparr>pendingEffects := m\<rparr>))"

definition runImmediateEffects :: "code \<Rightarrow> runtime \<Rightarrow> (js_error option \<times> runtime) option" where
  "runImmediateEffects E s =
    (case take_pendingLayoutCleanups s of (currentLayoutCleanups, s1) \<Rightarrow>
       (case Map_forEach E currentLayoutCleanups 0 s1 of
          None \<Rightarrow> None
        | Some (Some err, s2) \<Rightarrow> Some (Some err, s2)
        | Some (None, s2) \<Rightarrow>
           (case take_pendingLayoutEffects s2 of (currentLayoutEffects, s3) \<Rightarrow>
              Map_forEach E currentLayoutEffects 0 s3)))"

text \<open>
  \<^verbatim>\<open>runUpdatePassOnRaf\<close> is the function below wrapped by \<^verbatim>\<open>throttleWith\<close>
  and \<^verbatim>\<open>requestMeasure\<close>, which are not among the sources. The read-phase callback
  is \<open>runUpdatePass_measure\<close>: it ends by handing a closure to
  \<^verbatim>\<open>requestMutation\<close>, and returns the array \<^verbatim>\<open>instancesToUpdate\<close> that
  the closure captured. The closure is \<open>runUpdatePass_mutation\<close>, which the frame
  primitive calls in the write phase. \<^verbatim>\<open>Array.prototype.sort\<close> is stable.
\<close>

definition runUpdatePass_measure ::
  "code \<Rightarrow> runtime \<Rightarrow> ((js_error + addr list) \<times> runtime) option" where
  "runUpdatePass_measure E s =
    (let s1 = s\<lparr>areImmediateEffectsPending := True, idsToExcludeFromUpdate := {}\<rparr>;
         instancesToUpdate =
           sort_key (\<lambda>a. inst_id (instances s1 a)) (instancesPendingUpdate s1);
         s2 = s1\<lparr>instancesPendingUpdate := []\<rparr>
     in case take_pendingCleanups s2 of (currentCleanups, s3) \<Rightarrow>
       (case Map_forEach E currentCleanups 0 s3 of
          None \<Rightarrow> None
        | Some (Some err, s4) \<Rightarrow> Some (Inl err, s4)
        | Some (None, s4) \<Rightarrow>
           (case take_pendingEffects s4 of (currentEffects, s5) \<Rightarrow>
              (case Map_forEach E currentEffects 0 s5 of
                 None \<Rightarrow> None
               | Some (Some err, s6) \<Rightarrow> Some (Inl err, s6)
               | Some (None, s6) \<Rightarrow> Some (Inr instancesToUpdate, s6)))))"

text \<open>
  The two loops of the closure. \<open>prepare_step\<close> is the body of the first,
  \<^verbatim>\<open>prepareComponentForFrame\<close> itself; \<open>update_step\<close> is the body of the
  second, the test of the exclusion set and \<^verbatim>\<open>forceUpdateComponent\<close>. Each notes
  in the ghost trace that the scheduler hands the instance to the function.
\<close>

definition log_event :: "event \<Rightarrow> runtime \<Rightarrow> runtime" where
  "log_event e s = s\<lparr>trace := trace s @ [e]\<rparr>"

definition prepare_step :: "addr \<Rightarrow> runtime \<Rightarrow> js_error option \<times> runtime" where
  "prepare_step a s = prepareComponentForFrame a (log_event (EvPrepare a) s)"

definition update_step :: "code \<Rightarrow> addr \<Rightarrow> runtime \<Rightarrow> js_error option \<times> runtime" where
  "update_step E a s =
    (if inst_id (instances s a) \<in> idsToExcludeFromUpdate s then (None, s)
     else forceUpdateComponent E a (log_event (EvForceUpdate a) s))"

definition runUpdatePass_mutation ::
  "code \<Rightarrow> addr list \<Rightarrow> runtime \<Rightarrow> (js_error option \<times> runtime) option" where
  "runUpdatePass_mutation E instancesToUpdate s =
    (case forEach prepare_step instancesToUpdate s of
       (Some err, s1) \<Rightarrow> Some (Some err, s1)
     | (None, s1) \<Rightarrow>
        (case forEach (update_step E) instancesToUpdate s1 of
           (Some err, s2) \<Rightarrow> Some (Some err, s2)
         | (None, s2) \<Rightarrow> runImmediateEffects E (s2\<lparr>areImmediateEffectsPending := False\<rparr>)))"

definition willRunImmediateEffects :: "runtime \<Rightarrow> bool" where
  "willRunImmediateEffects s = areImmediateEffectsPending s"

subsection \<open>The enqueue operations and the state setter\<close>

text \<open>
  \<^verbatim>\<open>set.add(x)\<close> and \<^verbatim>\<open>map.set(key, cb)\<close> of the built-in containers: an
  element that is present is not added again; a key that is present keeps its position.
\<close>

definition Set_add :: "'a \<Rightarrow> 'a list \<Rightarrow> 'a list" where
  "Set_add x xs = (if x \<in> set xs then xs else xs @ [x])"

fun Map_set :: "(string \<times> cbref) list \<Rightarrow> string \<Rightarrow> cbref \<Rightarrow> (string \<times> cbref) list" where
  "Map_set [] k v = [(k, v)]"
| "Map_set ((k', v') # es) k v = (if k' = k then (k, v) # es else (k', v') # Map_set es k v)"

text \<open>
  Modelled from the spec: the enqueue operations of the scheduler, which the hook engine
  calls and which are not among the sources (the hooks are re-exported from another
  package). The spec has them idempotent per key: enqueuing under a key that is pending
  replaces the pending callback, and an instance is pending at most once. Each writes to the
  container that its module variable holds at the moment of the call.
\<close>

definition enqueueUpdate :: "addr \<Rightarrow> runtime \<Rightarrow> runtime" where
  "enqueueUpdate a s = s\<lparr>instancesPendingUpdate := Set_add a (instancesPendingUpdate s)\<rparr>"

definition enqueueEffect :: "string \<Rightarrow> cbref \<Rightarrow> runtime \<Rightarrow> runtime" where
  "enqueueEffect key cb s =
    s\<lparr>maps := (maps s)(pendingEffects s := Map_set (maps s (pendingEffects s)) key cb)\<rparr>"

definition enqueueCleanup :: "string \<Rightarrow> cbref \<Rightarrow> runtime \<Rightarrow> runtime" where
  "enqueueCleanup key cb s =
    s\<lparr>maps := (maps s)(pendingCleanups s := Map_set (maps s (pendingCleanups s)) key cb)\<rparr>"

definition enqueueLayoutEffect :: "string \<Rightarrow> cbref \<Rightarrow> runtime \<Rightarrow> runtime" where
  "enqueueLayoutEffect key cb s =
    s\<lparr>maps := (maps s)(pendingLayoutEffects s :=
          Map_set (maps s (pendingLayoutEffects s)) key cb)\<rparr>"

definition enqueueLayoutCleanup :: "string \<Rightarrow> cbref \<Rightarrow> runtime \<Rightarrow> runtime" where
  "enqueueLayoutCleanup key cb s =
    s\<lparr>maps := (maps s)(pendingLayoutCleanups s :=
          Map_set (maps s (pendingLayoutCleanups s)) key cb)\<rparr>"

text \<open>
  Modelled from the spec: the setter of the state hook at cursor position \<open>k\<close> of the
  instance at \<open>a\<close>; the hook engine is not among the sources. In the spec's words the
  setter stores the requested next value, or applies a function of the current value, into
  the staged slot and enqueues the owning instance for update; it does not write the
  current value. On a slot that does not exist the model changes nothing.
\<close>

datatype SetterArg = NewValue jsval | Updater "jsval \<Rightarrow> jsval"

definition requested :: "SetterArg \<Rightarrow> jsval \<Rightarrow> jsval" where
  "requested arg cur = (case arg of NewValue v \<Rightarrow> v | Updater f \<Rightarrow> f cur)"

definition state_setter :: "addr \<Rightarrow> nat \<Rightarrow> SetterArg \<Rightarrow> runtime \<Rightarrow> runtime" where
  "state_setter a k arg s =
    (case hooks (instances s a) of
       None \<Rightarrow> s
     | Some h \<Rightarrow>
        (if k < length (byCursor (state h)) then
           enqueueUpdate a
             (upd_inst a (\<lambda>i. i\<lparr>hooks := Some (h\<lparr>state := (state h)\<lparr>byCursor :=
               (byCursor (state h))[k := (byCursor (state h) ! k)
                  \<lparr>nextValue := requested arg (sValue (byCursor (state h) ! k))\<rparr>]\<rparr>\<rparr>)\<rparr>) s)
         else s))"

text \<open>
  The module state when the module has just been loaded: the four queues are four empty
  maps, and no instance has been created (an address that holds no instance yet reads as
  \<open>new_instance\<close>, which is not mounted and has no hook container).
\<close>

definition new_instance :: ComponentInstance where
  "new_instance =
    \<lparr>inst_id = 0, element = None, Component = None, name = [], props = None,
     renderedValue = VUndefined, isMounted = False, hooks = None,
     prepareForFrame = None, forceUpdate = None, onUpdate = None\<rparr>"

definition initial_runtime :: runtime where
  "initial_runtime =
    \<lparr>lastComponentId = 0, renderingInstance = None, instances = (\<lambda>a. new_instance),
     maps = (\<lambda>a. []), nextRef = 4, instancesPendingUpdate = [], idsToExcludeFromUpdate = {},
     pendingEffects = 0, pendingCleanups = 1, pendingLayoutEffects = 2,
     pendingLayoutCleanups = 3, areImmediateEffectsPending = False, console_error = [],
     trace = []\<rparr>"

section \<open>Notions used in the statements\<close>

text \<open>A child list without its trailing placeholders.\<close>

definition without_empty_tail :: "jsval list \<Rightarrow> jsval list" where
  "without_empty_tail cs = rev (dropWhile isEmptyPlaceholder (rev cs))"

text \<open>A code table whose callbacks do nothing and whose components render nothing.\<close>

definition idle_code :: code where
  "idle_code =
    \<lparr>callbacks = (\<lambda>cb s. (None, s)), components = (\<lambda>f p s. (Inr VUndefined, s)),
     names = (\<lambda>f. ''Idle'')\<rparr>"

text \<open>
  The state in which \<^verbatim>\<open>renderComponent\<close> calls the render function of an instance
  that has its hook container \<open>h\<close>: the instance excluded from the current batch, the
  instance current, the four cursors at zero.
\<close>

definition render_call_state :: "addr \<Rightarrow> Hooks \<Rightarrow> runtime \<Rightarrow> runtime" where
  "render_call_state a h s =
    upd_inst a (\<lambda>i. i\<lparr>hooks := Some (reset_cursors h)\<rparr>)
      (s\<lparr>idsToExcludeFromUpdate := insert (inst_id (instances s a)) (idsToExcludeFromUpdate s),
         renderingInstance := Some a\<rparr>)"

text \<open>
  User code that runs between \<open>s\<close> and \<open>s'\<close> has left alone the fields that only the
  runtime assigns: it has not itself rendered, mounted or unmounted the instance at \<open>a\<close>.
\<close>

definition lifecycle_kept :: "addr \<Rightarrow> runtime \<Rightarrow> runtime \<Rightarrow> bool" where
  "lifecycle_kept a s s' =
    (inst_id (instances s' a) = inst_id (instances s a) \<and>
     element (instances s' a) = element (instances s a) \<and>
     name (instances s' a) = name (instances s a) \<and>
     props (instances s' a) = props (instances s a) \<and>
     renderedValue (instances s' a) = renderedValue (instances s a) \<and>
     isMounted (instances s' a) = isMounted (instances s a) \<and>
     onUpdate (instances s' a) = onUpdate (instances s a))"

text \<open>
  Example states: a component instance just created by the element builder (it is stored at
  address 5), and the same instance mounted and wired to an \<^verbatim>\<open>onUpdate\<close> callback.
\<close>

definition example_created :: runtime where
  "example_created = snd (createElement idle_code (SrcComponent 0) None [] initial_runtime)"

definition example_mounted :: runtime where
  "example_mounted =
    upd_inst 5 (\<lambda>i. i\<lparr>onUpdate := Some 0\<rparr>) (snd (mountComponent idle_code 5 example_created))"

text \<open>The mounted instance at the start of a new pass, the exclusion set empty.\<close>

definition example_mounted_fresh :: runtime where
  "example_mounted_fresh = example_mounted\<lparr>idsToExcludeFromUpdate := {}\<rparr>"

text \<open>
  A code table whose component renders \<^verbatim>\<open>NaN\<close> while the instance at address 5 is
  not mounted, and throws once it is.
\<close>

definition nan_then_throw_code :: code where
  "nan_then_throw_code =
    \<lparr>callbacks = (\<lambda>cb s. (None, s)),
     components = (\<lambda>f p s. if isMounted (instances s 5) then (Inl (Thrown (VStr ''boom'')), s)
                            else (Inr VNaN, s)),
     names = (\<lambda>f. ''Ratio'')\<rparr>"

definition example_nan :: runtime where
  "example_nan =
    snd (mountComponent nan_then_throw_code 5
      (snd (createElement nan_then_throw_code (SrcComponent 0) None [] initial_runtime)))"

text \<open>A code table whose component always throws.\<close>

definition throwing_code :: code where
  "throwing_code =
    \<lparr>callbacks = (\<lambda>cb s. (None, s)),
     components = (\<lambda>f p s. (Inl (Thrown (VStr ''boom'')), s)),
     names = (\<lambda>f. ''Broken'')\<rparr>"


text \<open>
  A sequence of setter calls, each on a cursor position of the instance at \<open>a\<close>; the
  state hook records of an instance; the value that the last call on position \<open>k\<close>
  requested, given the live value and the staged value at the start.
\<close>

definition setter_calls :: "addr \<Rightarrow> (nat \<times> SetterArg) list \<Rightarrow> runtime \<Rightarrow> runtime" where
  "setter_calls a calls s = fold (\<lambda>c. state_setter a (fst c) (snd c)) calls s"

definition state_slots :: "runtime \<Rightarrow> addr \<Rightarrow> StateHook list" where
  "state_slots s a = (case hooks (instances s a) of None \<Rightarrow> [] | Some h \<Rightarrow> byCursor (state h))"

definition last_requested :: "nat \<Rightarrow> (nat \<times> SetterArg) list \<Rightarrow> StateHook \<Rightarrow> jsval" where
  "last_requested k calls slot =
    (if filter (\<lambda>c. fst c = k) calls = [] then nextValue slot
     else requested (snd (last (filter (\<lambda>c. fst c = k) calls))) (sValue slot))"

definition example_with_state :: runtime where
  "example_with_state =
    upd_inst 5 (\<lambda>i. i\<lparr>hooks := Some (new_hooks\<lparr>state :=
      \<lparr>cursor = 1, byCursor = [\<lparr>sValue = VNum 0, nextValue = VNum 0, setter = Some 7\<rparr>]\<rparr>\<rparr>)\<rparr>)
      example_mounted"

text \<open>
  The four queue variables hold four different allocated maps: so it is when the module is
  loaded, and every drain keeps it so. A map is out of reach when it is allocated and no
  queue variable holds it; then only a local constant of a drain refers to it.
\<close>

definition queues_ok :: "runtime \<Rightarrow> bool" where
  "queues_ok s =
    (pendingEffects s < nextRef s \<and> pendingCleanups s < nextRef s \<and>
     pendingLayoutEffects s < nextRef s \<and> pendingLayoutCleanups s < nextRef s \<and>
     distinct [pendingEffects s, pendingCleanups s, pendingLayoutEffects s,
       pendingLayoutCleanups s])"

definition out_of_reach :: "addr \<Rightarrow> runtime \<Rightarrow> bool" where
  "out_of_reach m s =
    (m < nextRef s \<and> pendingEffects s \<noteq> m \<and> pendingCleanups s \<noteq> m \<and>
     pendingLayoutEffects s \<noteq> m \<and> pendingLayoutCleanups s \<noteq> m)"

text \<open>
  User code is scoped when it gets at the queues as code outside the module must: through
  the module's functions, which keep the queue variables in order and never write to a map
  that is out of reach.
\<close>

definition scoped :: "callback \<Rightarrow> bool" where
  "scoped f =
    (\<forall>t. queues_ok t \<longrightarrow>
       queues_ok (snd (f t)) \<and>
       (\<forall>m. out_of_reach m t \<longrightarrow> out_of_reach m (snd (f t)) \<and> maps (snd (f t)) m = maps t m))"

text \<open>
  Calling the callbacks of a list of entries, in order, up to the first that throws: a drain
  of these entries and of nothing else.
\<close>

definition drained :: "code \<Rightarrow> (string \<times> cbref) list \<Rightarrow> runtime \<Rightarrow> js_error option \<times> runtime" where
  "drained E entries s = forEach (invoke E) (map snd entries) s"

text \<open>
  A code table whose callback 1 enqueues callback 2 as a layout cleanup and as an effect
  cleanup, and a state with callback 1 pending in both cleanup queues.
\<close>

definition reentrant_code :: code where
  "reentrant_code =
    \<lparr>callbacks = (\<lambda>cb s. if cb = 1
        then (None, enqueueCleanup ''again'' 2 (enqueueLayoutCleanup ''again'' 2 s))
        else (None, s)),
     components = (\<lambda>f p s. (Inr VUndefined, s)),
     names = (\<lambda>f. ''Idle'')\<rparr>"

definition example_pending :: runtime where
  "example_pending =
    enqueueCleanup ''first'' 1 (enqueueLayoutCleanup ''first'' 1 initial_runtime)"

text \<open>
  The instances that a trace shows prepared, and those it shows force-updated, in order.
\<close>

fun prepared :: "event list \<Rightarrow> addr list" where
  "prepared [] = []"
| "prepared (EvPrepare a # es) = a # prepared es"
| "prepared (e # es) = prepared es"

fun forced :: "event list \<Rightarrow> addr list" where
  "forced [] = []"
| "forced (EvForceUpdate a # es) = a # forced es"
| "forced (e # es) = forced es"

text \<open>
  A code table whose component renders \<^verbatim>\<open>NaN\<close>, so that every render rebuilds the
  element, and whose callback 0 does what the patcher does when the parent's new output
  re-renders the child with id 2: it leaves the id in the exclusion set. The state has two
  such components mounted, at addresses 5 and 10 with ids 1 and 2, wired to callbacks 0 and
  1, and both pending, the younger one first.
\<close>

definition parent_code :: code where
  "parent_code =
    \<lparr>callbacks = (\<lambda>cb s. if cb = 0
        then (None, s\<lparr>idsToExcludeFromUpdate := insert 2 (idsToExcludeFromUpdate s)\<rparr>)
        else (None, s)),
     components = (\<lambda>f p s. (Inr VNaN, s)),
     names = (\<lambda>f. ''Ratio'')\<rparr>"

definition example_two :: runtime where
  "example_two =
    (let s1 = snd (createElement parent_code (SrcComponent 0) None [] initial_runtime);
         s2 = upd_inst 5 (\<lambda>i. i\<lparr>onUpdate := Some 0\<rparr>) (snd (mountComponent parent_code 5 s1));
         s3 = snd (createElement parent_code (SrcComponent 0) None [] s2);
         s4 = upd_inst 10 (\<lambda>i. i\<lparr>onUpdate := Some 1\<rparr>) (snd (mountComponent parent_code 10 s3))
     in enqueueUpdate 5 (enqueueUpdate 10 (enqueueUpdate 5 (enqueueUpdate 10 s4))))"

text \<open>
  User code keeps the queues when it leaves the queue variables in order, as the module's
  own functions do.
\<close>

definition keeps_queues :: "(runtime \<Rightarrow> 'r \<times> runtime) \<Rightarrow> bool" where
  "keeps_queues f = (\<forall>t. queues_ok t \<longrightarrow> queues_ok (snd (f t)))"

text \<open>
  In the spec's words, each instance of the array, unless its id is in the exclusion set,
  is forced through \<^verbatim>\<open>forceUpdate\<close>. \<open>forced_updates\<close> lists the instances
  that this names: those whose id is not in the exclusion set when their turn comes, the
  turns ending at a step that throws.
\<close>

fun forced_updates :: "code \<Rightarrow> addr list \<Rightarrow> runtime \<Rightarrow> addr list" where
  "forced_updates E [] u = []"
| "forced_updates E (a # ys) u =
    (if inst_id (instances u a) \<in> idsToExcludeFromUpdate u then [] else [a]) @
    (case update_step E a u of
       (None, u') \<Rightarrow> forced_updates E ys u'
     | (Some err, u') \<Rightarrow> [])"

text \<open>
  The state \<open>example_two\<close> with the first instance wired to callback 1, which excludes
  nothing.
\<close>

definition example_two_apart :: runtime where
  "example_two_apart = upd_inst 5 (\<lambda>i. i\<lparr>onUpdate := Some 1\<rparr>) example_two"

section \<open>The element builder drops the empty tail\<close>

lemma dropEmptyTail_loop_eq:
  "- 1 \<le> i \<Longrightarrow> i < int (length cs) \<Longrightarrow>
   dropEmptyTail_loop cs i =
     int (length (dropWhile isEmptyPlaceholder (rev (take (nat (i + 1)) cs)))) - 1"
proof (induction cs i rule: dropEmptyTail_loop.induct)
  case (1 children i)
  show ?case
  proof (cases "i \<ge> 0")
    case False
    with 1 have "i = - 1" by simp
    then show ?thesis by (simp add: dropEmptyTail_loop.simps)
  next
    case True
    then have tk: "take (nat (i + 1)) children = take (nat i) children @ [children ! nat i]"
      using 1(3) by (simp add: nat_add_distrib take_Suc_conv_app_nth)
    show ?thesis
    proof (cases "isEmptyPlaceholder (children ! nat i)")
      case False
      then show ?thesis using True 1(3) tk
        by (subst dropEmptyTail_loop.simps) (simp del: isEmptyPlaceholder.simps)
    next
      case ph: True
      have "dropEmptyTail_loop children i = dropEmptyTail_loop children (i - 1)"
        using True ph by (subst dropEmptyTail_loop.simps) (simp del: isEmptyPlaceholder.simps)
      also have "\<dots> =
          int (length (dropWhile isEmptyPlaceholder (rev (take (nat (i - 1 + 1)) children)))) - 1"
        using 1(1)[OF True] ph True 1(3) by (simp del: isEmptyPlaceholder.simps)
      finally show ?thesis using tk ph by (simp del: isEmptyPlaceholder.simps)
    qed
  qed
qed

lemma without_empty_tail_take:
  "without_empty_tail cs = take (length (without_empty_tail cs)) cs"
proof -
  have "dropWhile isEmptyPlaceholder (rev cs) =
      drop (length (takeWhile isEmptyPlaceholder (rev cs))) (rev cs)"
    by (rule dropWhile_eq_drop)
  then show ?thesis
    by (simp add: without_empty_tail_def rev_drop del: isEmptyPlaceholder.simps)
qed

lemma without_empty_tail_Nil_iff:
  "without_empty_tail cs = [] \<longleftrightarrow> list_all isEmptyPlaceholder cs"
  by (simp add: without_empty_tail_def list_all_iff del: isEmptyPlaceholder.simps)

lemma dropEmptyTail_eq:
  "dropEmptyTail cs noEmpty =
    (if noEmpty \<and> cs \<noteq> [] \<and> list_all isEmptyPlaceholder cs then take 1 cs
     else without_empty_tail cs)"
proof -
  define L where "L = length (without_empty_tail cs)"
  have loop: "dropEmptyTail_loop cs (int (length cs) - 1) = int L - 1"
    using dropEmptyTail_loop_eq [of "int (length cs) - 1" cs]
    by (simp add: L_def without_empty_tail_def)
  have Lle: "L \<le> length cs"
    unfolding L_def without_empty_tail_def
    using length_dropWhile_le [of isEmptyPlaceholder "rev cs"] by simp
  have tk: "without_empty_tail cs = take L cs"
    unfolding L_def by (rule without_empty_tail_take)
  have L0: "L = 0 \<longleftrightarrow> list_all isEmptyPlaceholder cs"
    unfolding L_def using without_empty_tail_Nil_iff [of cs] by simp
  show ?thesis
  proof (cases "L = length cs")
    case True
    then have "without_empty_tail cs = cs" using tk by simp
    moreover have "\<not> (cs \<noteq> [] \<and> list_all isEmptyPlaceholder cs)" using True L0 by auto
    ultimately show ?thesis using True loop by (auto simp: dropEmptyTail_def)
  next
    case False
    show ?thesis
    proof (cases "L = 0")
      case True
      then have "without_empty_tail cs = []" using tk by simp
      moreover have "cs \<noteq> []" using False True by auto
      moreover have "list_all isEmptyPlaceholder cs" using True L0 by simp
      ultimately show ?thesis using True False loop
        by (auto simp: dropEmptyTail_def Let_def simp del: isEmptyPlaceholder.simps)
    next
      case nz: False
      then have "\<not> list_all isEmptyPlaceholder cs" using L0 by simp
      moreover have "nat (int L - 1 + 1) = L" by simp
      ultimately show ?thesis using nz False loop tk
        by (auto simp: dropEmptyTail_def Let_def simp del: isEmptyPlaceholder.simps)
    qed
  qed
qed

lemma map_build_one_placeholder:
  "cs \<noteq> [] \<Longrightarrow> list_all isEmptyPlaceholder cs \<Longrightarrow>
   map_build (take (Suc 0) cs) n = ([VirtualElementEmpty n], Suc n)"
  by (cases cs) (simp_all add: buildChildElement_def buildEmptyElement_def
      del: isEmptyPlaceholder.simps)

lemma map_build_mono: "n \<le> snd (map_build cs n)"
proof (induction cs arbitrary: n)
  case Nil
  then show ?case by simp
next
  case (Cons c cs)
  obtain e n1 where b: "buildChildElement c n = (e, n1)" by (cases "buildChildElement c n")
  have "n \<le> n1"
    using b by (auto simp: buildChildElement_def buildEmptyElement_def buildTextElement_def
        split: if_splits jsval.splits)
  then show ?case using Cons.IH [of n1] b by (auto split: prod.splits)
qed

text \<open>
  C6, as the code has it. \<^verbatim>\<open>dropEmptyTail\<close> returns the child list without its
  trailing placeholders, except that with \<^verbatim>\<open>noEmpty\<close> a non-empty list of
  placeholders only is cut to its first element. So, for the flattened children of a call
  to the element builder: with the fragment marker the element's children are built from
  the list without its trailing placeholders, and a non-empty list of placeholders only
  gives exactly one Empty element; with a string tag the children are built from the list
  without its trailing placeholders, which for a list of placeholders only is no child at
  all. With a render function the element is built with no children and with the props of
  the new instance, and the flattened children are not trimmed: the props get no
  \<^verbatim>\<open>children\<close> prop for an empty list or for a single child that is not truthy,
  the bare child for a single truthy child, and the array of all the children for two or
  more.
\<close>

theorem createElement_children:
  "dropEmptyTail cs noEmpty =
     (if noEmpty \<and> cs \<noteq> [] \<and> list_all isEmptyPlaceholder cs then take 1 cs
      else without_empty_tail cs)
   \<and> el_children (fst (createElement E SrcFragment p cs0 s)) =
     (if flat cs0 \<noteq> [] \<and> list_all isEmptyPlaceholder (flat cs0)
      then [VirtualElementEmpty (Suc (nextRef s))]
      else fst (map_build (without_empty_tail (flat cs0)) (Suc (nextRef s))))
   \<and> el_children (fst (createElement E (SrcTag t) p cs0 s)) =
     fst (map_build (without_empty_tail (flat cs0)) (Suc (nextRef s)))
   \<and> (list_all isEmptyPlaceholder (flat cs0) \<longrightarrow>
        el_children (fst (createElement E (SrcTag t) p cs0 s)) = [])
   \<and> el_children (fst (createElement E (SrcComponent f) p cs0 s)) = []
   \<and> (let q = (case p of None \<Rightarrow> [] | Some q \<Rightarrow> q);
           fl = flat cs0;
           ps = (if fl = [] then q
                 else if length fl = 1
                   then (if truthy (hd fl) then prop_set q ''children'' (hd fl) else q)
                 else prop_set q ''children'' (VArr (nextRef s) fl))
       in fst (createElement E (SrcComponent f) p cs0 s) =
            VirtualElementComponent (Suc (Suc (nextRef s))) (Suc (nextRef s)) (Some ps) []
          \<and> props (instances (snd (createElement E (SrcComponent f) p cs0 s))
               (Suc (nextRef s))) = Some ps)"
proof -
  have frag: "el_children (fst (createElement E SrcFragment p cs0 s)) =
     (if flat cs0 \<noteq> [] \<and> list_all isEmptyPlaceholder (flat cs0)
      then [VirtualElementEmpty (Suc (nextRef s))]
      else fst (map_build (without_empty_tail (flat cs0)) (Suc (nextRef s))))"
    by (simp add: createElement_def buildFragmentElement_def dropEmptyTail_eq
        map_build_one_placeholder split: prod.splits del: isEmptyPlaceholder.simps)
  have tag: "el_children (fst (createElement E (SrcTag t) p cs0 s)) =
     fst (map_build (without_empty_tail (flat cs0)) (Suc (nextRef s)))"
    by (simp add: createElement_def buildTagElement_def dropEmptyTail_eq
        split: prod.splits del: isEmptyPlaceholder.simps)
  have tag0: "list_all isEmptyPlaceholder (flat cs0) \<longrightarrow>
        el_children (fst (createElement E (SrcTag t) p cs0 s)) = []"
    using without_empty_tail_Nil_iff [of "flat cs0"] by (auto simp: tag)
  have comp: "el_children (fst (createElement E (SrcComponent f) p cs0 s)) = []"
    by (simp add: createElement_def createComponentInstance_def buildComponentElement_def
        dropEmptyTail_eq without_empty_tail_def Let_def split: prod.splits)
  have prp: "(let q = (case p of None \<Rightarrow> [] | Some q \<Rightarrow> q);
           fl = flat cs0;
           ps = (if fl = [] then q
                 else if length fl = 1
                   then (if truthy (hd fl) then prop_set q ''children'' (hd fl) else q)
                 else prop_set q ''children'' (VArr (nextRef s) fl))
       in fst (createElement E (SrcComponent f) p cs0 s) =
            VirtualElementComponent (Suc (Suc (nextRef s))) (Suc (nextRef s)) (Some ps) []
          \<and> props (instances (snd (createElement E (SrcComponent f) p cs0 s))
               (Suc (nextRef s))) = Some ps)"
    by (simp add: createElement_def createComponentInstance_def buildComponentElement_def
        parsedChildren_def dropEmptyTail_eq without_empty_tail_def upd_inst_def Let_def)
  show ?thesis using dropEmptyTail_eq frag tag tag0 comp prp by blast
qed

theorem createElement_children_witness:
  "list_all isEmptyPlaceholder (flat [VNull, VArr 9 [VUndefined]]) \<and>
   el_children (fst (createElement idle_code (SrcTag ''div'') None [VNull, VArr 9 [VUndefined]]
     initial_runtime)) = [] \<and>
   el_children (fst (createElement idle_code SrcFragment None [VNull, VArr 9 [VUndefined]]
     initial_runtime)) = [VirtualElementEmpty 5] \<and>
   fst (createElement idle_code (SrcComponent 0) None [VNull, VArr 9 [VUndefined]]
     initial_runtime) =
     VirtualElementComponent 6 5 (Some [(''children'', VArr 4 [VNull, VUndefined])]) [] \<and>
   fst (createElement idle_code (SrcComponent 0) (Some [(''key'', VNum 3)]) [VNum 0]
     initial_runtime) = VirtualElementComponent 6 5 (Some [(''key'', VNum 3)]) [] \<and>
   fst (createElement idle_code (SrcComponent 0) (Some [(''key'', VNum 3)]) [VStr ''a'']
     initial_runtime) =
     VirtualElementComponent 6 5 (Some [(''key'', VNum 3), (''children'', VStr ''a'')]) []"
proof -
  have f: "flat [VNull, VArr 9 [VUndefined]] = [VNull, VUndefined]"
    "flat [VNum 0] = [VNum 0]" "flat [VStr ''a''] = [VStr ''a'']"
    by (simp_all add: flat_def)
  have n: "nextRef initial_runtime = 4"
    by (simp add: initial_runtime_def)
  have 1: "el_children (fst (createElement idle_code (SrcTag ''div'') None
       [VNull, VArr 9 [VUndefined]] initial_runtime)) = [] \<and>
     el_children (fst (createElement idle_code SrcFragment None [VNull, VArr 9 [VUndefined]]
       initial_runtime)) = [VirtualElementEmpty 5] \<and>
     fst (createElement idle_code (SrcComponent 0) None [VNull, VArr 9 [VUndefined]]
       initial_runtime) =
       VirtualElementComponent 6 5 (Some [(''children'', VArr 4 [VNull, VUndefined])]) []"
    using createElement_children [of "[]" True idle_code None "[VNull, VArr 9 [VUndefined]]"
        initial_runtime "''div''" 0]
    by (simp add: f n without_empty_tail_def Let_def)
  have 2: "fst (createElement idle_code (SrcComponent 0) (Some [(''key'', VNum 3)]) [VNum 0]
       initial_runtime) = VirtualElementComponent 6 5 (Some [(''key'', VNum 3)]) []"
    using createElement_children [of "[]" True idle_code "Some [(''key'', VNum 3)]" "[VNum 0]"
        initial_runtime "''div''" 0]
    by (simp add: f n Let_def)
  have 3: "fst (createElement idle_code (SrcComponent 0) (Some [(''key'', VNum 3)]) [VStr ''a'']
       initial_runtime) =
       VirtualElementComponent 6 5 (Some [(''key'', VNum 3), (''children'', VStr ''a'')]) []"
    using createElement_children [of "[]" True idle_code "Some [(''key'', VNum 3)]"
        "[VStr ''a'']" initial_runtime "''div''" 0]
    by (simp add: f n Let_def)
  show ?thesis using 1 2 3 by (simp add: f)
qed

theorem createElement_tag_counterexample:
  "map el_type (el_children (fst (createElement idle_code (SrcTag ''div'') None [VNull]
     initial_runtime))) = []
   \<and> map el_type (el_children (fst (createElement idle_code (SrcTag ''div'') None [VNull]
     initial_runtime))) \<noteq> [TypeEmpty]"
  by (simp add: createElement_def buildTagElement_def dropEmptyTail_def flat_def
      dropEmptyTail_loop.simps initial_runtime_def)

section \<open>The diff predicate on Component elements\<close>

text \<open>
  C5. For two Component elements, \<^verbatim>\<open>hasElementChanged\<close> returns true exactly when the
  render-function references of the two instances differ or the \<^verbatim>\<open>key\<close> props of
  the two elements are not strictly equal; the result is a function of these two
  comparisons, so no other prop takes part.
\<close>

theorem hasElementChanged_component:
  "hasElementChanged s (VirtualElementComponent a i (Some p) cs)
      (VirtualElementComponent b j (Some q) ds) =
    Inr (Component (instances s i) \<noteq> Component (instances s j) \<or>
         \<not> strict_eq (prop_get p ''key'') (prop_get q ''key''))"
  by (simp add: hasElementChanged_def typeof_el_def)

theorem hasElementChanged_component_witness:
  "hasElementChanged initial_runtime
      (VirtualElementComponent 10 5 (Some [(''key'', VStr ''a''), (''title'', VNum 1)]) [])
      (VirtualElementComponent 11 6 (Some [(''title'', VNum 2), (''key'', VStr ''a'')]) []) =
    Inr False
   \<and> hasElementChanged initial_runtime
      (VirtualElementComponent 10 5 (Some [(''key'', VStr ''a''), (''title'', VNum 1)]) [])
      (VirtualElementComponent 11 6 (Some [(''title'', VNum 1), (''key'', VStr ''b'')]) []) =
    Inr True"
  using hasElementChanged_component [of initial_runtime 10 5
      "[(''key'', VStr ''a''), (''title'', VNum 1)]" "[]" 11 6
      "[(''title'', VNum 2), (''key'', VStr ''a'')]" "[]"]
    hasElementChanged_component [of initial_runtime 10 5
      "[(''key'', VStr ''a''), (''title'', VNum 1)]" "[]" 11 6
      "[(''title'', VNum 1), (''key'', VStr ''b'')]" "[]"]
  by (simp add: initial_runtime_def prop_get_def strict_eq_def)


section \<open>Rendering: bail-out and fault isolation\<close>

lemma render_attempt_throw:
  assumes "hooks (instances s a) = Some h" "Component (instances s a) = Some f"
    and "components E f (props (instances s a)) (render_call_state a h s) = (Inl err, s3)"
  shows "render_attempt E a s =
     (renderedValue (instances s3 a),
      s3\<lparr>trace := trace s @ [EvRender a],
         console_error := console_error s3 @ [render_error_message (name (instances s3 a))]\<rparr>)"
  using assms
  by (simp add: render_attempt_def safeExec_def render_body_def render_rescue_def
      call_component_def render_call_state_def upd_inst_def Let_def)

lemma render_attempt_return:
  assumes "hooks (instances s a) = Some h" "Component (instances s a) = Some f"
    and "components E f (props (instances s a)) (render_call_state a h s) = (Inr v, s3)"
  shows "render_attempt E a s = (v, s3\<lparr>trace := trace s @ [EvRender a]\<rparr>)"
  using assms
  by (simp add: render_attempt_def safeExec_def render_body_def render_rescue_def
      call_component_def render_call_state_def upd_inst_def Let_def)

lemma render_attempt_trace:
  "render_attempt E a s = (v, s1) \<Longrightarrow>
   trace s1 = trace s \<or> trace s1 = trace s @ [EvRender a]"
  by (auto simp: render_attempt_def safeExec_def render_body_def render_rescue_def
      call_component_def upd_inst_def Let_def split: option.splits prod.splits sum.splits)

lemma renderComponent_bails:
  assumes "render_attempt E a s = (v, s1)" "isMounted (instances s1 a)"
    and "strict_eq v (renderedValue (instances s1 a))"
  shows "renderComponent E a s = (element (instances s1 a), s1)"
  using assms by (simp add: renderComponent_def)

lemma renderComponent_rebuilds:
  assumes "render_attempt E a s = (v, s1)"
    and "\<not> (isMounted (instances s1 a) \<and> strict_eq v (renderedValue (instances s1 a)))"
  shows "renderComponent E a s =
    (case map_build (dropEmptyTail (children_of v) True) (nextRef s1) of
      (cs, n) \<Rightarrow>
        (Some (VirtualElementComponent n a (props (instances s1 a)) cs),
         upd_inst a (\<lambda>i. i\<lparr>renderedValue := v,
             element := Some (VirtualElementComponent n a (props (instances s1 a)) cs)\<rparr>)
           (s1\<lparr>nextRef := Suc n\<rparr>)))"
  using assms
  by (auto simp: renderComponent_def buildComponentElement_def upd_inst_def Let_def
      split: prod.splits)

text \<open>
  C1. Take a mounted instance, let \<open>render_attempt\<close> (the render function under fault
  isolation) leave the state \<open>s1\<close> and the raw output \<open>v\<close>, the render function not
  having assigned the runtime's own fields of the instance. If \<open>v\<close> is strictly equal
  to the stored \<^verbatim>\<open>renderedValue\<close>, then \<^verbatim>\<open>renderComponent\<close> returns the
  element the instance already had and leaves the state exactly as the render left it,
  so nothing is allocated; and \<^verbatim>\<open>forceUpdateComponent\<close> ends in that same state
  without a callback invoked: \<^verbatim>\<open>onUpdate\<close> has not run.
\<close>

theorem renderComponent_bail_out:
  assumes "isMounted (instances s a)"
    and "render_attempt E a s = (v, s1)"
    and "lifecycle_kept a s s1"
    and "strict_eq v (renderedValue (instances s a))"
  shows "renderComponent E a s = (element (instances s a), s1)
    \<and> nextRef (snd (renderComponent E a s)) = nextRef s1
    \<and> forceUpdateComponent E a s =
        (None, if onUpdate (instances s a) = None then s else s1)
    \<and> (\<forall>cb. EvInvoke cb \<in> set (trace s1) \<longrightarrow> EvInvoke cb \<in> set (trace s))"
proof -
  have r: "renderComponent E a s = (element (instances s a), s1)"
    using assms renderComponent_bails [of E a s v s1] by (simp add: lifecycle_kept_def)
  have f: "forceUpdateComponent E a s =
        (None, if onUpdate (instances s a) = None then s else s1)"
    using assms r by (simp add: forceUpdateComponent_def lifecycle_kept_def)
  have t: "\<forall>cb. EvInvoke cb \<in> set (trace s1) \<longrightarrow> EvInvoke cb \<in> set (trace s)"
    using render_attempt_trace [OF assms(2)] by auto
  show ?thesis using r f t by simp
qed

lemma example_mounted_facts:
  "isMounted (instances example_mounted 5)"
  "renderedValue (instances example_mounted 5) = VUndefined"
  "onUpdate (instances example_mounted 5) = Some 0"
  "element (instances example_mounted 5) =
     Some (VirtualElementComponent 8 5 (Some []) [VirtualElementEmpty 7])"
  "hooks (instances example_mounted 5) = Some new_hooks"
  "Component (instances example_mounted 5) = Some 0"
  "props (instances example_mounted 5) = Some []"
  "nextRef example_mounted = 9"
  by code_simp+

theorem renderComponent_bail_out_witness:
  "isMounted (instances example_mounted 5)
   \<and> lifecycle_kept 5 example_mounted (snd (render_attempt idle_code 5 example_mounted))
   \<and> strict_eq (fst (render_attempt idle_code 5 example_mounted))
        (renderedValue (instances example_mounted 5))
   \<and> renderComponent idle_code 5 example_mounted =
        (Some (VirtualElementComponent 8 5 (Some []) [VirtualElementEmpty 7]),
         snd (render_attempt idle_code 5 example_mounted))
   \<and> nextRef (snd (renderComponent idle_code 5 example_mounted)) = 9
   \<and> forceUpdateComponent idle_code 5 example_mounted =
        (None, snd (render_attempt idle_code 5 example_mounted))
   \<and> trace (snd (forceUpdateComponent idle_code 5 example_mounted)) = [EvRender 5, EvRender 5]"
proof -
  have k: "lifecycle_kept 5 example_mounted (snd (render_attempt idle_code 5 example_mounted))"
    by code_simp
  have e: "strict_eq (fst (render_attempt idle_code 5 example_mounted))
      (renderedValue (instances example_mounted 5))"
    by code_simp
  have n: "nextRef (snd (render_attempt idle_code 5 example_mounted)) = 9"
    by code_simp
  have t: "trace (snd (render_attempt idle_code 5 example_mounted)) = [EvRender 5, EvRender 5]"
    by code_simp
  have r: "render_attempt idle_code 5 example_mounted =
      (fst (render_attempt idle_code 5 example_mounted),
       snd (render_attempt idle_code 5 example_mounted))"
    by simp
  show ?thesis
    using renderComponent_bail_out [OF example_mounted_facts(1) r k e] k e n t
    by (simp add: example_mounted_facts)
qed

text \<open>
  C3, as the code has it. Let the render function of a live instance throw, without having
  assigned the runtime's own fields of the instance. Then \<^verbatim>\<open>renderComponent\<close>
  writes exactly one line to \<^verbatim>\<open>console.error\<close>, which names the component; the
  stored \<^verbatim>\<open>renderedValue\<close> is taken as the render output and stays stored; and
  for a mounted instance whose stored output is strictly equal to itself (any value but
  \<^verbatim>\<open>NaN\<close>) the call returns the element the instance had, which stays its element.
  When the stored output is not strictly equal to itself, the call returns a newly built
  Component element, at an address that was free before, which becomes the instance's
  element.
\<close>

theorem renderComponent_render_throws:
  assumes "hooks (instances s a) = Some h"
    and "Component (instances s a) = Some f"
    and "components E f (props (instances s a)) (render_call_state a h s) = (Inl err, s3)"
    and "lifecycle_kept a s s3"
  shows "console_error (snd (renderComponent E a s)) =
      console_error s3 @ [render_error_message (name (instances s a))]
    \<and> fst (render_attempt E a s) = renderedValue (instances s a)
    \<and> renderedValue (instances (snd (renderComponent E a s)) a) = renderedValue (instances s a)
    \<and> (isMounted (instances s a) \<and>
        strict_eq (renderedValue (instances s a)) (renderedValue (instances s a)) \<longrightarrow>
          fst (renderComponent E a s) = element (instances s a) \<and>
          element (instances (snd (renderComponent E a s)) a) = element (instances s a))
    \<and> (\<not> strict_eq (renderedValue (instances s a)) (renderedValue (instances s a)) \<longrightarrow>
          (\<exists>n cs. nextRef s3 \<le> n \<and>
             fst (renderComponent E a s) =
               Some (VirtualElementComponent n a (props (instances s a)) cs) \<and>
             element (instances (snd (renderComponent E a s)) a) =
               Some (VirtualElementComponent n a (props (instances s a)) cs)))"
proof -
  define s1 where "s1 = s3\<lparr>trace := trace s @ [EvRender a],
     console_error := console_error s3 @ [render_error_message (name (instances s3 a))]\<rparr>"
  have att: "render_attempt E a s = (renderedValue (instances s a), s1)"
    using render_attempt_throw [OF assms(1,2,3)] assms(4)
    by (simp add: s1_def lifecycle_kept_def)
  have kept: "lifecycle_kept a s s1"
    using assms(4) by (simp add: s1_def lifecycle_kept_def)
  have ce: "console_error s1 = console_error s3 @ [render_error_message (name (instances s a))]"
    using assms(4) by (simp add: s1_def lifecycle_kept_def)
  show ?thesis
  proof (cases "isMounted (instances s1 a) \<and>
      strict_eq (renderedValue (instances s a)) (renderedValue (instances s1 a))")
    case True
    then have "renderComponent E a s = (element (instances s1 a), s1)"
      using renderComponent_bails [OF att] by simp
    moreover have "strict_eq (renderedValue (instances s a)) (renderedValue (instances s a))"
      using True kept by (simp add: lifecycle_kept_def)
    ultimately show ?thesis using att kept ce by (simp add: lifecycle_kept_def)
  next
    case False
    have nb: "\<not> (isMounted (instances s a) \<and>
        strict_eq (renderedValue (instances s a)) (renderedValue (instances s a)))"
      using False kept by (simp add: lifecycle_kept_def)
    obtain cs n where mb:
      "map_build (dropEmptyTail (children_of (renderedValue (instances s a))) True) (nextRef s1) =
         (cs, n)"
      by (cases "map_build (dropEmptyTail (children_of (renderedValue (instances s a))) True)
          (nextRef s1)")
    have le: "nextRef s3 \<le> n"
      using map_build_mono [of "nextRef s1"
          "dropEmptyTail (children_of (renderedValue (instances s a))) True"] mb
      by (simp add: s1_def)
    have pr: "props (instances s1 a) = props (instances s a)"
      using kept by (simp add: lifecycle_kept_def)
    have rc: "renderComponent E a s =
        (Some (VirtualElementComponent n a (props (instances s a)) cs),
         upd_inst a (\<lambda>i. i\<lparr>renderedValue := renderedValue (instances s a),
             element := Some (VirtualElementComponent n a (props (instances s a)) cs)\<rparr>)
           (s1\<lparr>nextRef := Suc n\<rparr>))"
      using renderComponent_rebuilds [OF att False] mb pr by simp
    have new: "\<exists>n cs. nextRef s3 \<le> n \<and>
             fst (renderComponent E a s) =
               Some (VirtualElementComponent n a (props (instances s a)) cs) \<and>
             element (instances (snd (renderComponent E a s)) a) =
               Some (VirtualElementComponent n a (props (instances s a)) cs)"
      using rc le by (intro exI [of _ n] exI [of _ cs]) (simp add: upd_inst_def)
    have c1: "console_error (snd (renderComponent E a s)) =
        console_error s3 @ [render_error_message (name (instances s a))]"
      using rc ce by (simp add: upd_inst_def)
    have c3: "renderedValue (instances (snd (renderComponent E a s)) a) =
        renderedValue (instances s a)"
      using rc by (simp add: upd_inst_def)
    show ?thesis using c1 c3 att nb new by auto
  qed
qed

theorem renderComponent_render_throws_witness:
  "hooks (instances example_mounted 5) = Some new_hooks
   \<and> Component (instances example_mounted 5) = Some 0
   \<and> components throwing_code 0 (props (instances example_mounted 5))
        (render_call_state 5 new_hooks example_mounted) =
      (Inl (Thrown (VStr ''boom'')), render_call_state 5 new_hooks example_mounted)
   \<and> lifecycle_kept 5 example_mounted (render_call_state 5 new_hooks example_mounted)
   \<and> isMounted (instances example_mounted 5)
   \<and> strict_eq (renderedValue (instances example_mounted 5))
        (renderedValue (instances example_mounted 5))
   \<and> console_error (snd (renderComponent throwing_code 5 example_mounted)) =
        [''[Teact] Error while rendering component Idle'']
   \<and> fst (renderComponent throwing_code 5 example_mounted) =
        Some (VirtualElementComponent 8 5 (Some []) [VirtualElementEmpty 7])
   \<and> element (instances (snd (renderComponent throwing_code 5 example_mounted)) 5) =
        Some (VirtualElementComponent 8 5 (Some []) [VirtualElementEmpty 7])
   \<and> lifecycle_kept 5 example_nan (render_call_state 5 new_hooks example_nan)
   \<and> \<not> strict_eq (renderedValue (instances example_nan 5))
        (renderedValue (instances example_nan 5))
   \<and> nextRef (render_call_state 5 new_hooks example_nan) = 9
   \<and> (\<exists>n cs. 9 \<le> n \<and>
         fst (renderComponent nan_then_throw_code 5 example_nan) =
           Some (VirtualElementComponent n 5 (props (instances example_nan 5)) cs))"
proof -
  have n1: "isMounted (instances example_nan 5)" by code_simp
  have n2: "hooks (instances example_nan 5) = Some new_hooks" by code_simp
  have n3: "Component (instances example_nan 5) = Some 0" by code_simp
  have n4: "isMounted (instances (render_call_state 5 new_hooks example_nan) 5)"
    using n1 by (simp add: render_call_state_def upd_inst_def)
  have n5: "components nan_then_throw_code 0 (props (instances example_nan 5))
        (render_call_state 5 new_hooks example_nan) =
      (Inl (Thrown (VStr ''boom'')), render_call_state 5 new_hooks example_nan)"
    using n4 by (simp add: nan_then_throw_code_def)
  have n6: "lifecycle_kept 5 example_nan (render_call_state 5 new_hooks example_nan)"
    by (simp add: lifecycle_kept_def render_call_state_def upd_inst_def)
  have n7: "\<not> strict_eq (renderedValue (instances example_nan 5))
        (renderedValue (instances example_nan 5))"
    by code_simp
  have n8: "nextRef (render_call_state 5 new_hooks example_nan) = 9"
    by code_simp
  have nan: "\<exists>n cs. 9 \<le> n \<and>
         fst (renderComponent nan_then_throw_code 5 example_nan) =
           Some (VirtualElementComponent n 5 (props (instances example_nan 5)) cs)"
    using renderComponent_render_throws [OF n2 n3 n5 n6] n7 n8 by auto
  have c: "components throwing_code 0 (props (instances example_mounted 5))
        (render_call_state 5 new_hooks example_mounted) =
      (Inl (Thrown (VStr ''boom'')), render_call_state 5 new_hooks example_mounted)"
    by (simp add: throwing_code_def)
  have k: "lifecycle_kept 5 example_mounted (render_call_state 5 new_hooks example_mounted)"
    by (simp add: lifecycle_kept_def render_call_state_def upd_inst_def)
  have ce: "console_error (render_call_state 5 new_hooks example_mounted) = []"
    by code_simp
  have nm: "name (instances example_mounted 5) = ''Idle''"
    by code_simp
  have se: "strict_eq (renderedValue (instances example_mounted 5))
        (renderedValue (instances example_mounted 5))"
    by code_simp
  have main: "console_error (snd (renderComponent throwing_code 5 example_mounted)) =
        [''[Teact] Error while rendering component Idle'']
   \<and> fst (renderComponent throwing_code 5 example_mounted) =
        Some (VirtualElementComponent 8 5 (Some []) [VirtualElementEmpty 7])
   \<and> element (instances (snd (renderComponent throwing_code 5 example_mounted)) 5) =
        Some (VirtualElementComponent 8 5 (Some []) [VirtualElementEmpty 7])"
    using renderComponent_render_throws [OF example_mounted_facts(5) example_mounted_facts(6) c k]
      se
    by (simp add: example_mounted_facts ce nm render_error_message_def)
  show ?thesis
    using main c k se n6 n7 n8 nan
    by (simp add: example_mounted_facts)
qed

theorem renderComponent_nan_counterexample:
  "isMounted (instances example_nan 5)
   \<and> hooks (instances example_nan 5) = Some new_hooks
   \<and> Component (instances example_nan 5) = Some 0
   \<and> components nan_then_throw_code 0 (props (instances example_nan 5))
        (render_call_state 5 new_hooks example_nan) =
      (Inl (Thrown (VStr ''boom'')), render_call_state 5 new_hooks example_nan)
   \<and> map_option el_addr (element (instances example_nan 5)) = Some 8
   \<and> map_option el_addr
        (element (instances (snd (renderComponent nan_then_throw_code 5 example_nan)) 5)) = Some 10"
proof -
  have 1: "isMounted (instances example_nan 5)" by code_simp
  have 2: "hooks (instances example_nan 5) = Some new_hooks" by code_simp
  have 3: "Component (instances example_nan 5) = Some 0" by code_simp
  have 4: "isMounted (instances (render_call_state 5 new_hooks example_nan) 5)"
    using 1 by (simp add: render_call_state_def upd_inst_def)
  have 5: "components nan_then_throw_code 0 (props (instances example_nan 5))
        (render_call_state 5 new_hooks example_nan) =
      (Inl (Thrown (VStr ''boom'')), render_call_state 5 new_hooks example_nan)"
    using 4 by (simp add: nan_then_throw_code_def)
  have 6: "map_option el_addr (element (instances example_nan 5)) = Some 8" by code_simp
  have 7: "map_option el_addr
        (element (instances (snd (renderComponent nan_then_throw_code 5 example_nan)) 5)) = Some 10"
    by code_simp
  show ?thesis using 1 2 3 5 6 7 by simp
qed


section \<open>Mounting\<close>





section \<open>Unmounting\<close>

lemma helpGc_result:
  "helpGc a t = (None, t') \<Longrightarrow>
   isMounted (instances t' a) = isMounted (instances t a) \<and> hooks (instances t' a) = None \<and>
   idsToExcludeFromUpdate t' = idsToExcludeFromUpdate t"
  by (auto simp: helpGc_def upd_inst_def split: option.splits)

lemma unmountComponent_result:
  assumes "isMounted (instances s a)" "unmountComponent E a s = (None, s')"
  shows "\<not> isMounted (instances s' a) \<and> hooks (instances s' a) = None"
proof -
  from assms obtain t where "helpGc a (upd_inst a (\<lambda>i. i\<lparr>isMounted := False\<rparr>) t) = (None, s')"
    by (auto simp: unmountComponent_def Let_def split: option.splits prod.splits)
  from helpGc_result [OF this] show ?thesis by (simp add: upd_inst_def)
qed

text \<open>
  C8. \<^verbatim>\<open>unmountComponent\<close> on an instance that is not mounted returns normally and
  leaves the whole state as it is; and after an unmount that returned normally, a second
  unmount is such a call.
\<close>

theorem unmountComponent_idempotent:
  "(\<not> isMounted (instances s a) \<longrightarrow> unmountComponent E a s = (None, s))
   \<and> (unmountComponent E a s = (None, s') \<longrightarrow> unmountComponent E a s' = (None, s'))"
proof -
  have 1: "unmountComponent E a t = (None, t)" if "\<not> isMounted (instances t a)" for t
    using that by (simp add: unmountComponent_def)
  have 2: "unmountComponent E a s' = (None, s')" if u: "unmountComponent E a s = (None, s')"
  proof (cases "isMounted (instances s a)")
    case True
    from unmountComponent_result [OF True u] show ?thesis by (simp add: 1)
  next
    case False
    then show ?thesis using u 1 [of s] by simp
  qed
  show ?thesis using 1 2 by blast
qed

lemma example_created_facts:
  "\<not> isMounted (instances example_created 5)"
  "hooks (instances example_created 5) = Some new_hooks"
  by code_simp+

theorem unmountComponent_idempotent_witness:
  "\<not> isMounted (instances example_created 5)
   \<and> unmountComponent idle_code 5 example_created = (None, example_created)
   \<and> isMounted (instances example_mounted 5)
   \<and> fst (unmountComponent idle_code 5 example_mounted) = None
   \<and> unmountComponent idle_code 5 (snd (unmountComponent idle_code 5 example_mounted)) =
        (None, snd (unmountComponent idle_code 5 example_mounted))"
proof -
  have f: "fst (unmountComponent idle_code 5 example_mounted) = None"
    by code_simp
  then have u: "unmountComponent idle_code 5 example_mounted =
      (None, snd (unmountComponent idle_code 5 example_mounted))"
    by (simp add: prod_eq_iff)
  show ?thesis
    using unmountComponent_idempotent [of example_created 5 idle_code example_created]
      unmountComponent_idempotent [of example_mounted 5 idle_code
        "snd (unmountComponent idle_code 5 example_mounted)"] u f
    by (simp add: example_created_facts example_mounted_facts)
qed

lemma invoke_excluded:
  assumes "\<forall>cb t. idsToExcludeFromUpdate t \<subseteq> idsToExcludeFromUpdate (snd (callbacks E cb t))"
    and "x \<in> idsToExcludeFromUpdate s"
  shows "x \<in> idsToExcludeFromUpdate (snd (invoke E cb s))"
proof -
  have "idsToExcludeFromUpdate s \<subseteq> idsToExcludeFromUpdate (snd (callbacks E cb s))"
    using assms(1) by blast
  then show ?thesis using assms(2) by (auto simp: invoke_def split: prod.splits)
qed

lemma unmount_effect_excluded:
  assumes "\<forall>cb t. idsToExcludeFromUpdate t \<subseteq> idsToExcludeFromUpdate (snd (callbacks E cb t))"
    and "x \<in> idsToExcludeFromUpdate s"
  shows "x \<in> idsToExcludeFromUpdate (snd (unmount_effect E a k s))"
proof -
  define s1 where "s1 = (case effect_at a k s of None \<Rightarrow> s
     | Some effect \<Rightarrow> (case cleanup effect of None \<Rightarrow> s
         | Some cb \<Rightarrow> safeExec (invoke E cb) None s))"
  have se: "x \<in> idsToExcludeFromUpdate (safeExec (invoke E cb) None s)" for cb
    using invoke_excluded [OF assms, of cb]
    by (cases "invoke E cb s") (auto simp: safeExec_def split: option.splits)
  have 1: "x \<in> idsToExcludeFromUpdate s1"
    using se assms(2) by (simp add: s1_def split: option.splits)
  have 2: "x \<in> idsToExcludeFromUpdate (clear_cleanup a k s1)"
    using 1 by (simp add: clear_cleanup_def upd_inst_def split: option.splits)
  have "unmount_effect E a k s =
      (case effect_at a k (clear_cleanup a k s1) of None \<Rightarrow> (None, clear_cleanup a k s1)
       | Some effect \<Rightarrow> (case releaseSignals effect of None \<Rightarrow> (None, clear_cleanup a k s1)
           | Some cb \<Rightarrow> invoke E cb (clear_cleanup a k s1)))"
    by (simp only: unmount_effect_def s1_def Let_def)
  then show ?thesis
    using invoke_excluded [OF assms(1) 2] 2 by (auto split: option.splits)
qed

lemma forEach_unmount_excluded:
  assumes "\<forall>cb t. idsToExcludeFromUpdate t \<subseteq> idsToExcludeFromUpdate (snd (callbacks E cb t))"
  shows "x \<in> idsToExcludeFromUpdate s \<Longrightarrow>
    x \<in> idsToExcludeFromUpdate (snd (forEach (unmount_effect E a) ks s))"
proof (induction ks arbitrary: s)
  case Nil
  then show ?case by simp
next
  case (Cons k ks)
  have "x \<in> idsToExcludeFromUpdate (snd (unmount_effect E a k s))"
    using unmount_effect_excluded [OF assms Cons.prems] .
  then show ?case
    using Cons.IH [of "snd (unmount_effect E a k s)"]
    by (auto split: prod.splits option.splits)
qed

text \<open>
  C9. For an instance that is not mounted, \<^verbatim>\<open>prepareComponentForFrame\<close> and
  \<^verbatim>\<open>forceUpdateComponent\<close> return at their guard: no error, the state unchanged, in
  a flush no render and nothing but the scheduler's own trace entry. An unmount that
  returns normally leaves the instance unmounted with its hook container gone, so both are
  such no-ops afterwards; and, the callbacks of the unmount not removing ids from the
  exclusion set, the id of the instance is in the exclusion set afterwards.
\<close>

theorem unmounted_instance_is_inert:
  "(\<not> isMounted (instances s a) \<longrightarrow>
      prepareComponentForFrame a s = (None, s) \<and> forceUpdateComponent E a s = (None, s) \<and>
      prepare_step a s = (None, log_event (EvPrepare a) s) \<and>
      update_step E a s =
        (None, if inst_id (instances s a) \<in> idsToExcludeFromUpdate s then s
               else log_event (EvForceUpdate a) s))
   \<and> (isMounted (instances s a) \<and> unmountComponent E a s = (None, s') \<longrightarrow>
      \<not> isMounted (instances s' a) \<and> hooks (instances s' a) = None \<and>
      prepareComponentForFrame a s' = (None, s') \<and> forceUpdateComponent E a s' = (None, s'))
   \<and> (isMounted (instances s a) \<and> unmountComponent E a s = (None, s') \<and>
      (\<forall>cb t. idsToExcludeFromUpdate t \<subseteq> idsToExcludeFromUpdate (snd (callbacks E cb t))) \<longrightarrow>
      inst_id (instances s a) \<in> idsToExcludeFromUpdate s')"
proof -
  have g: "prepareComponentForFrame a t = (None, t) \<and> forceUpdateComponent E a t = (None, t) \<and>
      prepare_step a t = (None, log_event (EvPrepare a) t) \<and>
      update_step E a t =
        (None, if inst_id (instances t a) \<in> idsToExcludeFromUpdate t then t
               else log_event (EvForceUpdate a) t)"
    if "\<not> isMounted (instances t a)" for t
    using that
    by (simp add: prepareComponentForFrame_def forceUpdateComponent_def prepare_step_def
        update_step_def log_event_def)
  have u: "\<not> isMounted (instances s' a) \<and> hooks (instances s' a) = None \<and>
      prepareComponentForFrame a s' = (None, s') \<and> forceUpdateComponent E a s' = (None, s')"
    if "isMounted (instances s a)" "unmountComponent E a s = (None, s')"
    using unmountComponent_result [OF that] g [of s'] by simp
  have x: "inst_id (instances s a) \<in> idsToExcludeFromUpdate s'"
    if m: "isMounted (instances s a)" and un: "unmountComponent E a s = (None, s')"
      and mono: "\<forall>cb t. idsToExcludeFromUpdate t \<subseteq> idsToExcludeFromUpdate (snd (callbacks E cb t))"
  proof -
    define s0 where "s0 = s\<lparr>idsToExcludeFromUpdate :=
        insert (inst_id (instances s a)) (idsToExcludeFromUpdate s)\<rparr>"
    have in0: "inst_id (instances s a) \<in> idsToExcludeFromUpdate s0" by (simp add: s0_def)
    from m un obtain h s1 where
      h: "hooks (instances s0 a) = Some h"
      and fe: "forEach (unmount_effect E a) [0..<length (byCursor (effects h))] s0 = (None, s1)"
      and gc: "helpGc a (upd_inst a (\<lambda>i. i\<lparr>isMounted := False\<rparr>) s1) = (None, s')"
      by (auto simp: unmountComponent_def s0_def Let_def split: option.splits prod.splits)
    have "inst_id (instances s a) \<in> idsToExcludeFromUpdate s1"
      using forEach_unmount_excluded [OF mono in0, of a "[0..<length (byCursor (effects h))]"] fe
      by simp
    then show ?thesis using helpGc_result [OF gc] by (simp add: upd_inst_def)
  qed
  show ?thesis using g [of s] u x by blast
qed

theorem unmounted_instance_is_inert_witness:
  "\<not> isMounted (instances example_created 5)
   \<and> prepareComponentForFrame 5 example_created = (None, example_created)
   \<and> forceUpdateComponent idle_code 5 example_created = (None, example_created)
   \<and> isMounted (instances example_mounted 5)
   \<and> fst (unmountComponent idle_code 5 example_mounted) = None
   \<and> (\<forall>cb t. idsToExcludeFromUpdate t \<subseteq> idsToExcludeFromUpdate (snd (callbacks idle_code cb t)))
   \<and> hooks (instances (snd (unmountComponent idle_code 5 example_mounted)) 5) = None
   \<and> forceUpdateComponent idle_code 5 (snd (unmountComponent idle_code 5 example_mounted)) =
        (None, snd (unmountComponent idle_code 5 example_mounted))
   \<and> inst_id (instances example_mounted 5) \<in>
        idsToExcludeFromUpdate (snd (unmountComponent idle_code 5 example_mounted))
   \<and> idsToExcludeFromUpdate example_mounted_fresh = {}
   \<and> isMounted (instances example_mounted_fresh 5)
   \<and> fst (unmountComponent idle_code 5 example_mounted_fresh) = None
   \<and> inst_id (instances example_mounted_fresh 5) \<in>
        idsToExcludeFromUpdate (snd (unmountComponent idle_code 5 example_mounted_fresh))"
proof -
  have e0: "idsToExcludeFromUpdate example_mounted_fresh = {}"
    by (simp add: example_mounted_fresh_def)
  have m0: "isMounted (instances example_mounted_fresh 5)"
    by (simp add: example_mounted_fresh_def example_mounted_facts)
  have f0: "fst (unmountComponent idle_code 5 example_mounted_fresh) = None"
    by code_simp
  then have u0: "unmountComponent idle_code 5 example_mounted_fresh =
      (None, snd (unmountComponent idle_code 5 example_mounted_fresh))"
    by (simp add: prod_eq_iff)
  have f: "fst (unmountComponent idle_code 5 example_mounted) = None"
    by code_simp
  then have u: "unmountComponent idle_code 5 example_mounted =
      (None, snd (unmountComponent idle_code 5 example_mounted))"
    by (simp add: prod_eq_iff)
  have mono: "\<forall>cb t. idsToExcludeFromUpdate t \<subseteq>
      idsToExcludeFromUpdate (snd (callbacks idle_code cb t))"
    by (simp add: idle_code_def)
  have x0: "inst_id (instances example_mounted_fresh 5) \<in>
        idsToExcludeFromUpdate (snd (unmountComponent idle_code 5 example_mounted_fresh))"
    using unmounted_instance_is_inert [of example_mounted_fresh 5 idle_code
        "snd (unmountComponent idle_code 5 example_mounted_fresh)"] u0 m0 mono
    by blast
  show ?thesis
    using unmounted_instance_is_inert [of example_created 5 idle_code example_created]
      unmounted_instance_is_inert [of example_mounted 5 idle_code
        "snd (unmountComponent idle_code 5 example_mounted)"] u f mono e0 m0 f0 x0
    by (simp add: example_created_facts example_mounted_facts)
qed


section \<open>State setters and the prepare step\<close>

lemma state_slots_setter:
  "state_slots (state_setter a k arg s) a =
    (if k < length (state_slots s a)
     then (state_slots s a)[k := (state_slots s a ! k)
        \<lparr>nextValue := requested arg (sValue (state_slots s a ! k))\<rparr>]
     else state_slots s a)"
  by (simp add: state_slots_def state_setter_def enqueueUpdate_def upd_inst_def
      split: option.splits)

lemma state_setter_kept:
  "isMounted (instances (state_setter a k arg s) a) = isMounted (instances s a) \<and>
   (hooks (instances (state_setter a k arg s) a) = None \<longleftrightarrow> hooks (instances s a) = None)"
  by (simp add: state_setter_def enqueueUpdate_def upd_inst_def split: option.splits)

lemma setter_calls_snoc:
  "setter_calls a (calls @ [c]) s = state_setter a (fst c) (snd c) (setter_calls a calls s)"
  by (simp add: setter_calls_def)

lemma setter_calls_kept:
  "isMounted (instances (setter_calls a calls s) a) = isMounted (instances s a) \<and>
   (hooks (instances (setter_calls a calls s) a) = None \<longleftrightarrow> hooks (instances s a) = None)"
proof (induction calls rule: rev_induct)
  case Nil
  then show ?case by (simp add: setter_calls_def)
next
  case (snoc c calls)
  then show ?case using state_setter_kept [of a "fst c" "snd c" "setter_calls a calls s"]
    by (simp add: setter_calls_snoc)
qed

lemma last_requested_snoc:
  "last_requested k (calls @ [c]) slot =
    (if fst c = k then requested (snd c) (sValue slot) else last_requested k calls slot)"
  by (simp add: last_requested_def)

lemma state_slots_setter_calls:
  "length (state_slots (setter_calls a calls s) a) = length (state_slots s a) \<and>
   (\<forall>j < length (state_slots s a).
      sValue (state_slots (setter_calls a calls s) a ! j) = sValue (state_slots s a ! j) \<and>
      nextValue (state_slots (setter_calls a calls s) a ! j) =
        last_requested j calls (state_slots s a ! j))"
proof (induction calls rule: rev_induct)
  case Nil
  then show ?case by (simp add: setter_calls_def last_requested_def)
next
  case (snoc c calls)
  define t where "t = setter_calls a calls s"
  have len: "length (state_slots t a) = length (state_slots s a)"
    using snoc by (simp add: t_def)
  have ih: "\<And>j. j < length (state_slots s a) \<Longrightarrow>
      sValue (state_slots t a ! j) = sValue (state_slots s a ! j) \<and>
      nextValue (state_slots t a ! j) = last_requested j calls (state_slots s a ! j)"
    using snoc by (simp add: t_def)
  have step: "state_slots (setter_calls a (calls @ [c]) s) a =
      (if fst c < length (state_slots t a)
       then (state_slots t a)[fst c := (state_slots t a ! fst c)
          \<lparr>nextValue := requested (snd c) (sValue (state_slots t a ! fst c))\<rparr>]
       else state_slots t a)"
    by (simp add: setter_calls_snoc state_slots_setter t_def)
  show ?case
  proof (intro conjI allI impI)
    show "length (state_slots (setter_calls a (calls @ [c]) s) a) = length (state_slots s a)"
      using len by (simp add: step)
  next
    fix j assume j: "j < length (state_slots s a)"
    show "sValue (state_slots (setter_calls a (calls @ [c]) s) a ! j) = sValue (state_slots s a ! j)"
      using ih [OF j] j len by (simp add: step nth_list_update)
  next
    fix j assume j: "j < length (state_slots s a)"
    show "nextValue (state_slots (setter_calls a (calls @ [c]) s) a ! j) =
        last_requested j (calls @ [c]) (state_slots s a ! j)"
      using ih [OF j] j len by (auto simp: step nth_list_update last_requested_snoc)
  qed
qed

lemma prepare_slots:
  assumes "isMounted (instances s a)" "hooks (instances s a) \<noteq> None"
  shows "fst (prepareComponentForFrame a s) = None \<and>
    state_slots (snd (prepareComponentForFrame a s)) a =
      map (\<lambda>hook. hook\<lparr>sValue := nextValue hook\<rparr>) (state_slots s a)"
  using assms
  by (auto simp: prepareComponentForFrame_def state_slots_def upd_inst_def split: option.splits)

text \<open>
  C4, with the setter modelled from the spec. After any sequence of setter calls on a
  mounted instance, the live value of every state slot is what it was before the calls, so
  the setter has written the staged slot only; and after the next
  \<^verbatim>\<open>prepareComponentForFrame\<close> the live value of a slot is the value requested by the
  last call on that slot (a function request being applied to the live value), or the
  value staged before when there was no call on it.
\<close>

theorem setter_last_write_wins:
  assumes "isMounted (instances s a)" and "hooks (instances s a) \<noteq> None"
    and "k < length (state_slots s a)"
  shows "sValue (state_slots (setter_calls a calls s) a ! k) = sValue (state_slots s a ! k)
    \<and> map sValue (state_slots (setter_calls a calls s) a) = map sValue (state_slots s a)
    \<and> fst (prepareComponentForFrame a (setter_calls a calls s)) = None
    \<and> sValue (state_slots (snd (prepareComponentForFrame a (setter_calls a calls s))) a ! k) =
        last_requested k calls (state_slots s a ! k)"
proof -
  define t where "t = setter_calls a calls s"
  note sl = state_slots_setter_calls [of a calls s, folded t_def]
  have m: "isMounted (instances t a)" "hooks (instances t a) \<noteq> None"
    using setter_calls_kept [of a calls s] assms by (simp_all add: t_def)
  have 1: "sValue (state_slots t a ! k) = sValue (state_slots s a ! k)"
    using sl assms(3) by simp
  have 2: "map sValue (state_slots t a) = map sValue (state_slots s a)"
    using sl by (simp add: list_eq_iff_nth_eq)
  have 3: "fst (prepareComponentForFrame a t) = None"
    using prepare_slots [OF m] by simp
  have 4: "sValue (state_slots (snd (prepareComponentForFrame a t)) a ! k) =
      last_requested k calls (state_slots s a ! k)"
    using prepare_slots [OF m] sl assms(3) by simp
  show ?thesis using 1 2 3 4 by (simp add: t_def)
qed

theorem setter_last_write_wins_witness:
  "isMounted (instances example_with_state 5)
   \<and> hooks (instances example_with_state 5) \<noteq> None
   \<and> 0 < length (state_slots example_with_state 5)
   \<and> sValue (state_slots (setter_calls 5
        [(0, NewValue (VNum 1)), (0, Updater (\<lambda>v. VStr ''two'')), (0, NewValue (VNum 3))]
        example_with_state) 5 ! 0) = VNum 0
   \<and> sValue (state_slots (snd (prepareComponentForFrame 5 (setter_calls 5
        [(0, NewValue (VNum 1)), (0, Updater (\<lambda>v. VStr ''two'')), (0, NewValue (VNum 3))]
        example_with_state))) 5 ! 0) = VNum 3"
proof -
  have 1: "isMounted (instances example_with_state 5)" by code_simp
  have 2: "hooks (instances example_with_state 5) \<noteq> None" by code_simp
  have 3: "state_slots example_with_state 5 =
      [\<lparr>sValue = VNum 0, nextValue = VNum 0, setter = Some 7\<rparr>]"
    by code_simp
  have 4: "0 < length (state_slots example_with_state 5)" by (simp add: 3)
  show ?thesis
    using setter_last_write_wins [OF 1 2 4,
        of "[(0, NewValue (VNum 1)), (0, Updater (\<lambda>v. VStr ''two'')), (0, NewValue (VNum 3))]"]
      1 2
    by (simp add: 3 last_requested_def requested_def)
qed


section \<open>Draining a queue\<close>

lemma invoke_trace: "trace (snd (invoke E cb s)) = trace s @ [EvInvoke cb]"
  by (cases "callbacks E cb s") (simp add: invoke_def)

lemma invoke_scoped:
  assumes "scoped (callbacks E cb)" "queues_ok s"
  shows "queues_ok (snd (invoke E cb s))"
    and "out_of_reach m s \<Longrightarrow>
      out_of_reach m (snd (invoke E cb s)) \<and> maps (snd (invoke E cb s)) m = maps s m"
proof -
  have q: "queues_ok (snd (callbacks E cb s))"
    using assms by (simp add: scoped_def)
  then show "queues_ok (snd (invoke E cb s))"
    by (cases "callbacks E cb s") (simp add: invoke_def queues_ok_def)
  assume o: "out_of_reach m s"
  have "out_of_reach m (snd (callbacks E cb s)) \<and> maps (snd (callbacks E cb s)) m = maps s m"
    using assms o by (simp add: scoped_def)
  then show "out_of_reach m (snd (invoke E cb s)) \<and> maps (snd (invoke E cb s)) m = maps s m"
    by (cases "callbacks E cb s") (simp add: invoke_def out_of_reach_def)
qed

lemma Map_forEach_snapshot:
  assumes sc: "\<forall>cb. scoped (callbacks E cb)"
  shows "queues_ok s \<Longrightarrow> out_of_reach m s \<Longrightarrow> k \<le> length (maps s m) \<Longrightarrow>
    Map_forEach E m k s = Some (forEach (invoke E) (map snd (drop k (maps s m))) s)"
proof (induction "length (maps s m) - k" arbitrary: k s)
  case 0
  then have "k = length (maps s m)" by simp
  then show ?case by (subst Map_forEach.simps) simp
next
  case (Suc n)
  then have lt: "k < length (maps s m)" by simp
  define cb where "cb = snd (maps s m ! k)"
  obtain r s' where inv: "invoke E cb s = (r, s')" by (cases "invoke E cb s")
  have sc': "scoped (callbacks E cb)" using sc by simp
  have q': "queues_ok s'" using invoke_scoped(1) [OF sc' Suc.prems(1)] inv by simp
  have o': "out_of_reach m s'" and mm: "maps s' m = maps s m"
    using invoke_scoped(2) [OF sc' Suc.prems(1) Suc.prems(2)] inv by simp_all
  have dr: "map snd (drop k (maps s m)) = cb # map snd (drop (Suc k) (maps s m))"
    using lt by (simp add: cb_def Cons_nth_drop_Suc [symmetric])
  show ?case
  proof (cases r)
    case None
    have "Map_forEach E m k s = Map_forEach E m (Suc k) s'"
      using lt inv None by (subst Map_forEach.simps) (simp add: cb_def)
    also have "\<dots> = Some (forEach (invoke E) (map snd (drop (Suc k) (maps s' m))) s')"
      using Suc.hyps(1) [of s' "Suc k"] Suc.hyps(2) q' o' mm lt by simp
    finally show ?thesis using dr inv None mm by simp
  next
    case (Some err)
    have "Map_forEach E m k s = Some (Some err, s')"
      using lt inv Some by (subst Map_forEach.simps) (simp add: cb_def)
    then show ?thesis using dr inv Some by simp
  qed
qed

lemma drained_trace:
  "drained E es s = (r, s') \<Longrightarrow>
   \<exists>n \<le> length es. trace s' = trace s @ map EvInvoke (take n (map snd es)) \<and>
     (r = None \<longrightarrow> n = length es)"
proof (induction es arbitrary: s)
  case Nil
  then show ?case by (simp add: drained_def)
next
  case (Cons e es)
  obtain r1 s1 where inv: "invoke E (snd e) s = (r1, s1)" by (cases "invoke E (snd e) s")
  have t1: "trace s1 = trace s @ [EvInvoke (snd e)]"
    using invoke_trace [of E "snd e" s] inv by simp
  show ?case
  proof (cases r1)
    case (Some err)
    then have "r = Some err" "s' = s1" using Cons.prems inv by (simp_all add: drained_def)
    then show ?thesis using t1 by (intro exI [of _ 1]) simp
  next
    case None
    then have "drained E es s1 = (r, s')" using Cons.prems inv by (simp add: drained_def)
    from Cons.IH [OF this] obtain n where
      n: "n \<le> length es" "trace s' = trace s1 @ map EvInvoke (take n (map snd es))"
        "r = None \<longrightarrow> n = length es"
      by blast
    then show ?thesis using t1 by (intro exI [of _ "Suc n"]) simp
  qed
qed

lemma drained_queues_ok:
  assumes sc: "\<forall>cb. scoped (callbacks E cb)"
  shows "queues_ok s \<Longrightarrow> queues_ok (snd (drained E es s))"
proof (induction es arbitrary: s)
  case Nil
  then show ?case by (simp add: drained_def)
next
  case (Cons e es)
  have "queues_ok (snd (invoke E (snd e) s))"
    using invoke_scoped(1) [of E "snd e" s] sc Cons.prems by simp
  then show ?case using Cons.IH [of "snd (invoke E (snd e) s)"]
    by (auto simp: drained_def split: prod.splits option.splits)
qed

lemma take_pending_facts:
  assumes "queues_ok s"
  shows "queues_ok (snd (take_pendingLayoutCleanups s))"
    "out_of_reach (fst (take_pendingLayoutCleanups s)) (snd (take_pendingLayoutCleanups s))"
    "maps (snd (take_pendingLayoutCleanups s)) (fst (take_pendingLayoutCleanups s)) =
       maps s (pendingLayoutCleanups s)"
    "queues_ok (snd (take_pendingLayoutEffects s))"
    "out_of_reach (fst (take_pendingLayoutEffects s)) (snd (take_pendingLayoutEffects s))"
    "maps (snd (take_pendingLayoutEffects s)) (fst (take_pendingLayoutEffects s)) =
       maps s (pendingLayoutEffects s)"
    "queues_ok (snd (take_pendingCleanups s))"
    "out_of_reach (fst (take_pendingCleanups s)) (snd (take_pendingCleanups s))"
    "maps (snd (take_pendingCleanups s)) (fst (take_pendingCleanups s)) =
       maps s (pendingCleanups s)"
    "queues_ok (snd (take_pendingEffects s))"
    "out_of_reach (fst (take_pendingEffects s)) (snd (take_pendingEffects s))"
    "maps (snd (take_pendingEffects s)) (fst (take_pendingEffects s)) =
       maps s (pendingEffects s)"
  using assms
  by (auto simp: queues_ok_def out_of_reach_def new_Map_def take_pendingLayoutCleanups_def
      take_pendingLayoutEffects_def take_pendingCleanups_def take_pendingEffects_def)

lemma drain_snapshot:
  assumes sc: "\<forall>cb. scoped (callbacks E cb)" and q: "queues_ok s1" and o: "out_of_reach m s1"
  shows "Map_forEach E m 0 s1 = Some (drained E (maps s1 m) s1)"
  using Map_forEach_snapshot [OF sc q o, of 0] by (simp add: drained_def)

lemma Map_set_mem: "(k, v) \<in> set (Map_set es k v)"
  by (induction es k v rule: Map_set.induct) auto

text \<open>
  C7. Let the queue variables be in order and the callbacks scoped. Then each drain returns,
  and it is the drain of the entries that the queue held when it was swapped out: the live
  iteration over the old map calls the callbacks of exactly these entries, in order, up to
  the first that throws, and the trace of a drain shows no other invocation. After the swap
  the queue variable holds a new, empty map, which is not the one being drained; an
  enqueue operation (modelled from the spec) writes to the map that the variable holds, so
  what a callback enqueues during a drain is pending in the new map.
\<close>

theorem drains_call_the_swapped_out_queue:
  assumes "queues_ok s" and "\<forall>cb. scoped (callbacks E cb)"
  shows "runImmediateEffects E s =
      Some (case take_pendingLayoutCleanups s of
        (m1, s1) \<Rightarrow>
          (case drained E (maps s (pendingLayoutCleanups s)) s1 of
             (Some err, s2) \<Rightarrow> (Some err, s2)
           | (None, s2) \<Rightarrow>
              (case take_pendingLayoutEffects s2 of
                (m2, s3) \<Rightarrow> drained E (maps s2 (pendingLayoutEffects s2)) s3)))
    \<and> runUpdatePass_measure E s =
      Some (let s0 = s\<lparr>areImmediateEffectsPending := True, idsToExcludeFromUpdate := {},
                  instancesPendingUpdate := []\<rparr>
       in case take_pendingCleanups s0 of
        (m1, s1) \<Rightarrow>
          (case drained E (maps s (pendingCleanups s)) s1 of
             (Some err, s2) \<Rightarrow> (Inl err, s2)
           | (None, s2) \<Rightarrow>
              (case take_pendingEffects s2 of
                (m2, s3) \<Rightarrow>
                  (case drained E (maps s2 (pendingEffects s2)) s3 of
                     (Some err, s4) \<Rightarrow> (Inl err, s4)
                   | (None, s4) \<Rightarrow>
                      (Inr (sort_key (\<lambda>a. inst_id (instances s a)) (instancesPendingUpdate s)),
                       s4)))))
    \<and> (\<forall>es t r t'. drained E es t = (r, t') \<longrightarrow>
         (\<exists>n \<le> length es. trace t' = trace t @ map EvInvoke (take n (map snd es)) \<and>
            (r = None \<longrightarrow> n = length es)))
    \<and> (\<forall>t. maps (snd (take_pendingLayoutCleanups t))
              (pendingLayoutCleanups (snd (take_pendingLayoutCleanups t))) = [] \<and>
            maps (snd (take_pendingLayoutEffects t))
              (pendingLayoutEffects (snd (take_pendingLayoutEffects t))) = [] \<and>
            maps (snd (take_pendingCleanups t))
              (pendingCleanups (snd (take_pendingCleanups t))) = [] \<and>
            maps (snd (take_pendingEffects t))
              (pendingEffects (snd (take_pendingEffects t))) = [])
    \<and> (\<forall>t key cb.
          (key, cb) \<in> set (maps (enqueueLayoutCleanup key cb t) (pendingLayoutCleanups t)) \<and>
          (key, cb) \<in> set (maps (enqueueLayoutEffect key cb t) (pendingLayoutEffects t)) \<and>
          (key, cb) \<in> set (maps (enqueueCleanup key cb t) (pendingCleanups t)) \<and>
          (key, cb) \<in> set (maps (enqueueEffect key cb t) (pendingEffects t)))"
proof -
  note sc = assms(2)
  have imm: "runImmediateEffects E s =
      Some (case take_pendingLayoutCleanups s of
        (m1, s1) \<Rightarrow>
          (case drained E (maps s (pendingLayoutCleanups s)) s1 of
             (Some err, s2) \<Rightarrow> (Some err, s2)
           | (None, s2) \<Rightarrow>
              (case take_pendingLayoutEffects s2 of
                (m2, s3) \<Rightarrow> drained E (maps s2 (pendingLayoutEffects s2)) s3)))"
  proof -
    obtain m1 s1 where t1: "take_pendingLayoutCleanups s = (m1, s1)"
      by (cases "take_pendingLayoutCleanups s")
    have f1: "queues_ok s1" "out_of_reach m1 s1" "maps s1 m1 = maps s (pendingLayoutCleanups s)"
      using take_pending_facts(1-3) [OF assms(1)] t1 by simp_all
    have d1: "Map_forEach E m1 0 s1 = Some (drained E (maps s (pendingLayoutCleanups s)) s1)"
      using drain_snapshot [OF sc f1(1,2)] f1(3) by simp
    obtain r2 s2 where r2: "drained E (maps s (pendingLayoutCleanups s)) s1 = (r2, s2)"
      by (cases "drained E (maps s (pendingLayoutCleanups s)) s1")
    have q2: "queues_ok s2"
      using drained_queues_ok [OF sc f1(1), of "maps s (pendingLayoutCleanups s)"] r2 by simp
    obtain m2 s3 where t2: "take_pendingLayoutEffects s2 = (m2, s3)"
      by (cases "take_pendingLayoutEffects s2")
    have f2: "queues_ok s3" "out_of_reach m2 s3" "maps s3 m2 = maps s2 (pendingLayoutEffects s2)"
      using take_pending_facts(4-6) [OF q2] t2 by simp_all
    have d2: "Map_forEach E m2 0 s3 = Some (drained E (maps s2 (pendingLayoutEffects s2)) s3)"
      using drain_snapshot [OF sc f2(1,2)] f2(3) by simp
    show ?thesis
      using t1 d1 r2 t2 d2 by (cases r2) (simp_all add: runImmediateEffects_def)
  qed
  have meas: "runUpdatePass_measure E s =
      Some (let s0 = s\<lparr>areImmediateEffectsPending := True, idsToExcludeFromUpdate := {},
                  instancesPendingUpdate := []\<rparr>
       in case take_pendingCleanups s0 of
        (m1, s1) \<Rightarrow>
          (case drained E (maps s (pendingCleanups s)) s1 of
             (Some err, s2) \<Rightarrow> (Inl err, s2)
           | (None, s2) \<Rightarrow>
              (case take_pendingEffects s2 of
                (m2, s3) \<Rightarrow>
                  (case drained E (maps s2 (pendingEffects s2)) s3 of
                     (Some err, s4) \<Rightarrow> (Inl err, s4)
                   | (None, s4) \<Rightarrow>
                      (Inr (sort_key (\<lambda>a. inst_id (instances s a)) (instancesPendingUpdate s)),
                       s4)))))"
  proof -
    define s0 where "s0 = s\<lparr>areImmediateEffectsPending := True, idsToExcludeFromUpdate := {},
                  instancesPendingUpdate := []\<rparr>"
    have q0: "queues_ok s0" using assms(1) by (simp add: s0_def queues_ok_def)
    have m0: "maps s0 (pendingCleanups s0) = maps s (pendingCleanups s)" by (simp add: s0_def)
    obtain m1 s1 where t1: "take_pendingCleanups s0 = (m1, s1)"
      by (cases "take_pendingCleanups s0")
    have f1: "queues_ok s1" "out_of_reach m1 s1" "maps s1 m1 = maps s (pendingCleanups s)"
      using take_pending_facts(7-9) [OF q0] t1 m0 by simp_all
    have d1: "Map_forEach E m1 0 s1 = Some (drained E (maps s (pendingCleanups s)) s1)"
      using drain_snapshot [OF sc f1(1,2)] f1(3) by simp
    obtain r2 s2 where r2: "drained E (maps s (pendingCleanups s)) s1 = (r2, s2)"
      by (cases "drained E (maps s (pendingCleanups s)) s1")
    have q2: "queues_ok s2"
      using drained_queues_ok [OF sc f1(1), of "maps s (pendingCleanups s)"] r2 by simp
    obtain m2 s3 where t2: "take_pendingEffects s2 = (m2, s3)"
      by (cases "take_pendingEffects s2")
    have f2: "queues_ok s3" "out_of_reach m2 s3" "maps s3 m2 = maps s2 (pendingEffects s2)"
      using take_pending_facts(10-12) [OF q2] t2 by simp_all
    have d2: "Map_forEach E m2 0 s3 = Some (drained E (maps s2 (pendingEffects s2)) s3)"
      using drain_snapshot [OF sc f2(1,2)] f2(3) by simp
    obtain r4 s4 where r4: "drained E (maps s2 (pendingEffects s2)) s3 = (r4, s4)"
      by (cases "drained E (maps s2 (pendingEffects s2)) s3")
    show ?thesis
      using t1 d1 r2 t2 d2 r4
      by (cases r2; cases r4) (simp_all add: runUpdatePass_measure_def Let_def s0_def)
  qed
  have tr: "\<forall>es t r t'. drained E es t = (r, t') \<longrightarrow>
         (\<exists>n \<le> length es. trace t' = trace t @ map EvInvoke (take n (map snd es)) \<and>
            (r = None \<longrightarrow> n = length es))"
    using drained_trace by blast
  have fresh: "\<forall>t. maps (snd (take_pendingLayoutCleanups t))
              (pendingLayoutCleanups (snd (take_pendingLayoutCleanups t))) = [] \<and>
            maps (snd (take_pendingLayoutEffects t))
              (pendingLayoutEffects (snd (take_pendingLayoutEffects t))) = [] \<and>
            maps (snd (take_pendingCleanups t))
              (pendingCleanups (snd (take_pendingCleanups t))) = [] \<and>
            maps (snd (take_pendingEffects t))
              (pendingEffects (snd (take_pendingEffects t))) = []"
    by (simp add: new_Map_def take_pendingLayoutCleanups_def take_pendingLayoutEffects_def
        take_pendingCleanups_def take_pendingEffects_def)
  have enq: "\<forall>t key cb.
          (key, cb) \<in> set (maps (enqueueLayoutCleanup key cb t) (pendingLayoutCleanups t)) \<and>
          (key, cb) \<in> set (maps (enqueueLayoutEffect key cb t) (pendingLayoutEffects t)) \<and>
          (key, cb) \<in> set (maps (enqueueCleanup key cb t) (pendingCleanups t)) \<and>
          (key, cb) \<in> set (maps (enqueueEffect key cb t) (pendingEffects t))"
    by (simp add: enqueueLayoutCleanup_def enqueueLayoutEffect_def enqueueCleanup_def
        enqueueEffect_def Map_set_mem)
  show ?thesis using imm meas tr fresh enq by blast
qed

lemma reentrant_code_scoped: "scoped (callbacks reentrant_code cb)"
  by (auto simp: scoped_def reentrant_code_def enqueueCleanup_def enqueueLayoutCleanup_def
      queues_ok_def out_of_reach_def)

theorem drains_call_the_swapped_out_queue_witness:
  "queues_ok example_pending
   \<and> (\<forall>cb. scoped (callbacks reentrant_code cb))
   \<and> maps example_pending (pendingLayoutCleanups example_pending) = [(''first'', 1)]
   \<and> (case runImmediateEffects reentrant_code example_pending of
         None \<Rightarrow> False
       | Some (r, s') \<Rightarrow>
           r = None \<and> trace s' = [EvInvoke 1] \<and>
           maps s' (pendingLayoutCleanups s') = [(''again'', 2)] \<and>
           maps s' (pendingCleanups s') = [(''first'', 1), (''again'', 2)])
   \<and> (case runUpdatePass_measure reentrant_code example_pending of
         None \<Rightarrow> False
       | Some (r, s') \<Rightarrow>
           r = Inr [] \<and> trace s' = [EvInvoke 1] \<and>
           maps s' (pendingCleanups s') = [(''again'', 2)])"
proof -
  have q: "queues_ok example_pending" by code_simp
  have sc: "\<forall>cb. scoped (callbacks reentrant_code cb)"
    using reentrant_code_scoped by blast
  note t = drains_call_the_swapped_out_queue [OF q sc]
  have m: "maps example_pending (pendingLayoutCleanups example_pending) = [(''first'', 1)]"
    by code_simp
  have 1: "(case runImmediateEffects reentrant_code example_pending of
         None \<Rightarrow> False
       | Some (r, s') \<Rightarrow>
           r = None \<and> trace s' = [EvInvoke 1] \<and>
           maps s' (pendingLayoutCleanups s') = [(''again'', 2)] \<and>
           maps s' (pendingCleanups s') = [(''first'', 1), (''again'', 2)])"
    unfolding conjunct1 [OF t] by code_simp
  have 2: "(case runUpdatePass_measure reentrant_code example_pending of
         None \<Rightarrow> False
       | Some (r, s') \<Rightarrow>
           r = Inr [] \<and> trace s' = [EvInvoke 1] \<and>
           maps s' (pendingCleanups s') = [(''again'', 2)])"
    unfolding conjunct1 [OF conjunct2 [OF t]] by code_simp
  show ?thesis using q sc m 1 2 by blast
qed


section \<open>The order of a flush pass\<close>

lemma prepared_append [simp]: "prepared (xs @ ys) = prepared xs @ prepared ys"
  by (induction xs rule: prepared.induct) simp_all

lemma forced_append [simp]: "forced (xs @ ys) = forced xs @ forced ys"
  by (induction xs rule: forced.induct) simp_all

lemma forced_map_EvPrepare [simp]: "forced (map EvPrepare xs) = []"
  by (induction xs) simp_all

lemma prepared_map_EvPrepare [simp]: "prepared (map EvPrepare xs) = xs"
  by (induction xs) simp_all

lemma prepared_map_EvInvoke [simp]: "prepared (map EvInvoke xs) = []"
  by (induction xs) simp_all

lemma forced_map_EvInvoke [simp]: "forced (map EvInvoke xs) = []"
  by (induction xs) simp_all

lemma prepare_step_trace:
  "trace (snd (prepare_step a s)) = trace s @ [EvPrepare a]"
  by (simp add: prepare_step_def prepareComponentForFrame_def log_event_def upd_inst_def
      split: option.splits)

lemma forEach_prepare_trace:
  "forEach prepare_step xs s = (r, s') \<Longrightarrow>
   \<exists>n \<le> length xs. trace s' = trace s @ map EvPrepare (take n xs) \<and>
     (r = None \<longrightarrow> n = length xs)"
proof (induction xs arbitrary: s)
  case Nil
  then show ?case by simp
next
  case (Cons a xs)
  obtain r1 s1 where st: "prepare_step a s = (r1, s1)" by (cases "prepare_step a s")
  have t1: "trace s1 = trace s @ [EvPrepare a]"
    using prepare_step_trace [of a s] st by simp
  show ?case
  proof (cases r1)
    case (Some err)
    then have "r = Some err" "s' = s1" using Cons.prems st by simp_all
    then show ?thesis using t1 by (intro exI [of _ 1]) simp
  next
    case None
    then have "forEach prepare_step xs s1 = (r, s')" using Cons.prems st by simp
    from Cons.IH [OF this] obtain n where
      "n \<le> length xs" "trace s' = trace s1 @ map EvPrepare (take n xs)"
      "r = None \<longrightarrow> n = length xs"
      by blast
    then show ?thesis using t1 by (intro exI [of _ "Suc n"]) simp
  qed
qed

lemma renderComponent_trace:
  "trace (snd (renderComponent E a s)) = trace s \<or>
   trace (snd (renderComponent E a s)) = trace s @ [EvRender a]"
proof -
  obtain v s1 where att: "render_attempt E a s = (v, s1)" by (cases "render_attempt E a s")
  have "trace (snd (renderComponent E a s)) = trace s1"
    using att
    by (simp add: renderComponent_def buildComponentElement_def upd_inst_def Let_def
        split: prod.splits)
  then show ?thesis using render_attempt_trace [OF att] by auto
qed

lemma forceUpdateComponent_trace:
  "\<exists>evs. trace (snd (forceUpdateComponent E a s)) = trace s @ evs \<and>
     prepared evs = [] \<and> forced evs = []"
proof (cases "\<not> isMounted (instances s a) \<or> onUpdate (instances s a) = None")
  case True
  then have "forceUpdateComponent E a s = (None, s)" by (simp add: forceUpdateComponent_def)
  then show ?thesis by simp
next
  case False
  obtain r1 s1 where rc: "renderComponent E a s = (r1, s1)" by (cases "renderComponent E a s")
  from renderComponent_trace [of E a s] rc obtain e1 where
    e1: "trace s1 = trace s @ e1" "prepared e1 = []" "forced e1 = []"
    by (cases "trace s1 = trace s") auto
  have "forceUpdateComponent E a s = (None, s1) \<or>
      forceUpdateComponent E a s = (Some TypeError, s1) \<or>
      (\<exists>cb. forceUpdateComponent E a s = invoke E cb s1)"
    using False rc by (auto simp: forceUpdateComponent_def Let_def split: option.splits)
  then show ?thesis
  proof (elim disjE exE)
    fix cb assume "forceUpdateComponent E a s = invoke E cb s1"
    then have "trace (snd (forceUpdateComponent E a s)) = trace s @ (e1 @ [EvInvoke cb])"
      using invoke_trace [of E cb s1] e1 by simp
    then show ?thesis using e1 by (intro exI [of _ "e1 @ [EvInvoke cb]"]) simp
  qed (use e1 in auto)
qed

lemma update_step_trace:
  "\<exists>evs. trace (snd (update_step E a s)) = trace s @ evs \<and>
     prepared evs = [] \<and>
     forced evs = (if inst_id (instances s a) \<in> idsToExcludeFromUpdate s then [] else [a])"
proof (cases "inst_id (instances s a) \<in> idsToExcludeFromUpdate s")
  case True
  then show ?thesis by (simp add: update_step_def)
next
  case False
  from forceUpdateComponent_trace [of E a "log_event (EvForceUpdate a) s"] obtain evs where
    "trace (snd (forceUpdateComponent E a (log_event (EvForceUpdate a) s))) =
       trace s @ (EvForceUpdate a # evs)" "prepared evs = []" "forced evs = []"
    by (auto simp: log_event_def)
  then show ?thesis using False
    by (intro exI [of _ "EvForceUpdate a # evs"]) (simp add: update_step_def)
qed

lemma subseq_forced_updates: "subseq (forced_updates E ys u) ys"
proof (induction ys arbitrary: u)
  case Nil
  then show ?case by simp
next
  case (Cons a ys)
  obtain r1 u1 where st: "update_step E a u = (r1, u1)" by (cases "update_step E a u")
  show ?case
    using Cons.IH [of u1] st by (cases r1) auto
qed

lemma forEach_update_trace:
  "\<exists>evs. trace (snd (forEach (update_step E) xs s)) = trace s @ evs \<and>
     prepared evs = [] \<and> forced evs = forced_updates E xs s"
proof (induction xs arbitrary: s)
  case Nil
  then show ?case by simp
next
  case (Cons a xs)
  obtain r1 s1 where st: "update_step E a s = (r1, s1)" by (cases "update_step E a s")
  from update_step_trace [of E a s] st obtain e1 where
    e1: "trace s1 = trace s @ e1" "prepared e1 = []"
      "forced e1 = (if inst_id (instances s a) \<in> idsToExcludeFromUpdate s then [] else [a])"
    by auto
  show ?case
  proof (cases r1)
    case (Some err)
    then have "forEach (update_step E) (a # xs) s = (Some err, s1)" using st by simp
    then show ?thesis using e1 st Some by (intro exI [of _ e1]) simp
  next
    case None
    then have fe: "forEach (update_step E) (a # xs) s = forEach (update_step E) xs s1"
      using st by simp
    from Cons.IH [of s1] obtain e2 where
      e2: "trace (snd (forEach (update_step E) xs s1)) = trace s1 @ e2" "prepared e2 = []"
        "forced e2 = forced_updates E xs s1"
      by blast
    show ?thesis using fe e1 e2 st None by (intro exI [of _ "e1 @ e2"]) simp
  qed
qed

lemma Map_forEach_trace:
  assumes "Map_forEach E m k s = Some y"
  shows "\<exists>cbs. trace (snd y) = trace s @ map EvInvoke cbs"
proof (rule Map_forEach.raw_induct
    [where P = "\<lambda>E m k s y. \<exists>cbs. trace (snd y) = trace s @ map EvInvoke cbs", OF _ assms])
  fix f :: "code \<Rightarrow> addr \<Rightarrow> nat \<Rightarrow> runtime \<Rightarrow> (js_error option \<times> runtime) option"
  fix E m k s y
  assume IH: "\<And>E m k s y. f E m k s = Some y \<Longrightarrow>
      \<exists>cbs. trace (snd y) = trace s @ map EvInvoke cbs"
    and eq: "(if k < length (maps s m)
      then case invoke E (snd (maps s m ! k)) s of
           (None, s') \<Rightarrow> f E m (Suc k) s'
           | (Some err, s') \<Rightarrow> Some (Some err, s')
      else Some (None, s)) = Some y"
  show "\<exists>cbs. trace (snd y) = trace s @ map EvInvoke cbs"
  proof (cases "k < length (maps s m)")
    case False
    then have "y = (None, s)" using eq by simp
    then show ?thesis by (intro exI [of _ "[]"]) simp
  next
    case True
    define cb where "cb = snd (maps s m ! k)"
    obtain r1 s1 where inv: "invoke E cb s = (r1, s1)" by (cases "invoke E cb s")
    have t1: "trace s1 = trace s @ [EvInvoke cb]" using invoke_trace [of E cb s] inv by simp
    show ?thesis
    proof (cases r1)
      case (Some err)
      then have "y = (Some err, s1)" using eq True inv by (simp add: cb_def)
      then show ?thesis using t1 by (intro exI [of _ "[cb]"]) simp
    next
      case None
      then have "f E m (Suc k) s1 = Some y" using eq True inv by (simp add: cb_def)
      from IH [OF this] obtain cbs where "trace (snd y) = trace s1 @ map EvInvoke cbs"
        by blast
      then show ?thesis using t1 by (intro exI [of _ "cb # cbs"]) simp
    qed
  qed
qed

lemma runImmediateEffects_trace:
  assumes "runImmediateEffects E s = Some y"
  shows "\<exists>cbs. trace (snd y) = trace s @ map EvInvoke cbs"
proof -
  obtain m1 s1 where t1: "take_pendingLayoutCleanups s = (m1, s1)"
    by (cases "take_pendingLayoutCleanups s")
  have tr1: "trace s1 = trace s"
    using t1 by (auto simp: take_pendingLayoutCleanups_def new_Map_def)
  from assms t1 obtain y1 where y1: "Map_forEach E m1 0 s1 = Some y1"
    by (cases "Map_forEach E m1 0 s1") (simp_all add: runImmediateEffects_def)
  from Map_forEach_trace [OF y1] obtain c1 where c1: "trace (snd y1) = trace s @ map EvInvoke c1"
    using tr1 by auto
  show ?thesis
  proof (cases "fst y1")
    case (Some err)
    then have "y = y1" using assms t1 y1 by (cases y1) (simp add: runImmediateEffects_def)
    then show ?thesis using c1 by blast
  next
    case None
    obtain m2 s3 where t2: "take_pendingLayoutEffects (snd y1) = (m2, s3)"
      by (cases "take_pendingLayoutEffects (snd y1)")
    have tr3: "trace s3 = trace (snd y1)"
      using t2 by (auto simp: take_pendingLayoutEffects_def new_Map_def)
    have "Map_forEach E m2 0 s3 = Some y"
      using assms t1 y1 None t2 by (cases y1) (simp add: runImmediateEffects_def)
    from Map_forEach_trace [OF this] obtain c2 where "trace (snd y) = trace s3 @ map EvInvoke c2"
      by blast
    then show ?thesis using tr3 c1 by (intro exI [of _ "c1 @ c2"]) simp
  qed
qed

lemma render_attempt_queues_ok:
  assumes rn: "\<forall>f p. keeps_queues (components E f p)" and q: "queues_ok s"
  shows "queues_ok (snd (render_attempt E a s))"
proof (cases "hooks (instances s a)")
  case None
  then show ?thesis using q
    by (simp add: render_attempt_def safeExec_def render_body_def render_rescue_def
        queues_ok_def Let_def)
next
  case (Some h)
  show ?thesis
  proof (cases "Component (instances s a)")
    case None
    then show ?thesis using q Some
      by (simp add: render_attempt_def safeExec_def render_body_def render_rescue_def
          queues_ok_def upd_inst_def Let_def)
  next
    case (Some f)
    note h = \<open>hooks (instances s a) = Some h\<close>
    obtain r s3 where c: "components E f (props (instances s a)) (render_call_state a h s) = (r, s3)"
      by (cases "components E f (props (instances s a)) (render_call_state a h s)")
    have "queues_ok (render_call_state a h s)"
      using q by (simp add: render_call_state_def queues_ok_def upd_inst_def)
    then have q3: "queues_ok s3"
      using rn c by (auto simp: keeps_queues_def dest!: spec [of _ f] spec [of _ "props (instances s a)"]
          spec [of _ "render_call_state a h s"])
    show ?thesis
    proof (cases r)
      case (Inl err)
      then show ?thesis using render_attempt_throw [OF h Some] c q3
        by (simp add: queues_ok_def)
    next
      case (Inr v)
      then show ?thesis using render_attempt_return [OF h Some] c q3
        by (simp add: queues_ok_def)
    qed
  qed
qed

lemma renderComponent_queues_ok:
  assumes rn: "\<forall>f p. keeps_queues (components E f p)" and q: "queues_ok s"
  shows "queues_ok (snd (renderComponent E a s))"
proof -
  obtain v s1 where att: "render_attempt E a s = (v, s1)" by (cases "render_attempt E a s")
  have q1: "queues_ok s1" using render_attempt_queues_ok [OF rn q, of a] att by simp
  show ?thesis
  proof (cases "isMounted (instances s1 a) \<and> strict_eq v (renderedValue (instances s1 a))")
    case True
    then show ?thesis using renderComponent_bails [OF att] q1 by simp
  next
    case False
    obtain cs n where mb: "map_build (dropEmptyTail (children_of v) True) (nextRef s1) = (cs, n)"
      by (cases "map_build (dropEmptyTail (children_of v) True) (nextRef s1)")
    have "nextRef s1 \<le> n"
      using map_build_mono [of "nextRef s1" "dropEmptyTail (children_of v) True"] mb by simp
    then show ?thesis using renderComponent_rebuilds [OF att False] mb q1
      by (simp add: queues_ok_def upd_inst_def)
  qed
qed

lemma forceUpdateComponent_queues_ok:
  assumes sc: "\<forall>cb. scoped (callbacks E cb)" and rn: "\<forall>f p. keeps_queues (components E f p)"
    and q: "queues_ok s"
  shows "queues_ok (snd (forceUpdateComponent E a s))"
proof (cases "\<not> isMounted (instances s a) \<or> onUpdate (instances s a) = None")
  case True
  then show ?thesis using q by (simp add: forceUpdateComponent_def)
next
  case False
  obtain r1 s1 where rc: "renderComponent E a s = (r1, s1)" by (cases "renderComponent E a s")
  have q1: "queues_ok s1" using renderComponent_queues_ok [OF rn q, of a] rc by simp
  have "forceUpdateComponent E a s = (None, s1) \<or>
      forceUpdateComponent E a s = (Some TypeError, s1) \<or>
      (\<exists>cb. forceUpdateComponent E a s = invoke E cb s1)"
    using False rc by (auto simp: forceUpdateComponent_def Let_def split: option.splits)
  then show ?thesis
  proof (elim disjE exE)
    fix cb assume "forceUpdateComponent E a s = invoke E cb s1"
    then show ?thesis using invoke_scoped(1) [of E cb s1] sc q1 by simp
  qed (use q1 in auto)
qed

lemma update_step_queues_ok:
  assumes sc: "\<forall>cb. scoped (callbacks E cb)" and rn: "\<forall>f p. keeps_queues (components E f p)"
    and q: "queues_ok s"
  shows "queues_ok (snd (update_step E a s))"
proof -
  have "queues_ok (log_event (EvForceUpdate a) s)"
    using q by (simp add: log_event_def queues_ok_def)
  from forceUpdateComponent_queues_ok [OF sc rn this, of a] show ?thesis
    using q by (simp add: update_step_def)
qed

lemma forEach_update_queues_ok:
  assumes sc: "\<forall>cb. scoped (callbacks E cb)" and rn: "\<forall>f p. keeps_queues (components E f p)"
  shows "queues_ok s \<Longrightarrow> queues_ok (snd (forEach (update_step E) xs s))"
proof (induction xs arbitrary: s)
  case Nil
  then show ?case by simp
next
  case (Cons a xs)
  have "queues_ok (snd (update_step E a s))"
    using update_step_queues_ok [OF sc rn Cons.prems] .
  then show ?case using Cons.IH [of "snd (update_step E a s)"]
    by (auto split: prod.splits option.splits)
qed

lemma prepare_step_queues_ok:
  "queues_ok s \<Longrightarrow> queues_ok (snd (prepare_step a s))"
  by (simp add: prepare_step_def prepareComponentForFrame_def log_event_def upd_inst_def
      queues_ok_def split: option.splits)

lemma forEach_prepare_queues_ok:
  "queues_ok s \<Longrightarrow> queues_ok (snd (forEach prepare_step xs s))"
proof (induction xs arbitrary: s)
  case Nil
  then show ?case by simp
next
  case (Cons a xs)
  have "queues_ok (snd (prepare_step a s))"
    using prepare_step_queues_ok [OF Cons.prems] .
  then show ?case using Cons.IH [of "snd (prepare_step a s)"]
    by (auto split: prod.splits option.splits)
qed

lemma runImmediateEffects_returns:
  assumes sc: "\<forall>cb. scoped (callbacks E cb)" and q: "queues_ok s"
  shows "\<exists>y. runImmediateEffects E s = Some y"
proof -
  obtain m1 s1 where t1: "take_pendingLayoutCleanups s = (m1, s1)"
    by (cases "take_pendingLayoutCleanups s")
  have f1: "queues_ok s1" "out_of_reach m1 s1"
    using take_pending_facts(1,2) [OF q] t1 by simp_all
  note d1 = drain_snapshot [OF sc f1]
  obtain r2 s2 where r2: "drained E (maps s1 m1) s1 = (r2, s2)"
    by (cases "drained E (maps s1 m1) s1")
  have q2: "queues_ok s2"
    using drained_queues_ok [OF sc f1(1), of "maps s1 m1"] r2 by simp
  obtain m2 s3 where t2: "take_pendingLayoutEffects s2 = (m2, s3)"
    by (cases "take_pendingLayoutEffects s2")
  have f2: "queues_ok s3" "out_of_reach m2 s3"
    using take_pending_facts(4,5) [OF q2] t2 by simp_all
  note d2 = drain_snapshot [OF sc f2]
  show ?thesis
    using t1 d1 r2 t2 d2 by (cases r2) (simp_all add: runImmediateEffects_def)
qed

lemma runUpdatePass_measure_returns:
  assumes sc: "\<forall>cb. scoped (callbacks E cb)" and q: "queues_ok s"
  shows "\<exists>y. runUpdatePass_measure E s = Some y"
proof -
  define s0 where "s0 = s\<lparr>areImmediateEffectsPending := True, idsToExcludeFromUpdate := {},
                  instancesPendingUpdate := []\<rparr>"
  have q0: "queues_ok s0" using q by (simp add: s0_def queues_ok_def)
  obtain m1 s1 where t1: "take_pendingCleanups s0 = (m1, s1)"
    by (cases "take_pendingCleanups s0")
  have f1: "queues_ok s1" "out_of_reach m1 s1"
    using take_pending_facts(7,8) [OF q0] t1 by simp_all
  note d1 = drain_snapshot [OF sc f1]
  obtain r2 s2 where r2: "drained E (maps s1 m1) s1 = (r2, s2)"
    by (cases "drained E (maps s1 m1) s1")
  have q2: "queues_ok s2"
    using drained_queues_ok [OF sc f1(1), of "maps s1 m1"] r2 by simp
  obtain m2 s3 where t2: "take_pendingEffects s2 = (m2, s3)"
    by (cases "take_pendingEffects s2")
  have f2: "queues_ok s3" "out_of_reach m2 s3"
    using take_pending_facts(10,11) [OF q2] t2 by simp_all
  note d2 = drain_snapshot [OF sc f2]
  obtain r4 s4 where r4: "drained E (maps s3 m2) s3 = (r4, s4)"
    by (cases "drained E (maps s3 m2) s3")
  show ?thesis
    using t1 d1 r2 t2 d2 r4
    by (cases r2; cases r4) (simp_all add: runUpdatePass_measure_def Let_def s0_def)
qed

lemma runUpdatePass_mutation_trace:
  assumes "runUpdatePass_mutation E xs s = Some (r, s')"
  shows "\<exists>n evs. n \<le> length xs \<and> trace s' = trace s @ map EvPrepare (take n xs) @ evs \<and>
      prepared evs = [] \<and> subseq (forced evs) xs \<and>
      (forced evs \<noteq> [] \<longrightarrow> n = length xs) \<and> (r = None \<longrightarrow> n = length xs) \<and>
      (fst (forEach prepare_step xs s) = None \<longrightarrow>
         n = length xs \<and> forced evs = forced_updates E xs (snd (forEach prepare_step xs s)))"
proof -
  obtain r1 s1 where p: "forEach prepare_step xs s = (r1, s1)"
    by (cases "forEach prepare_step xs s")
  from forEach_prepare_trace [OF p] obtain n where
    n: "n \<le> length xs" "trace s1 = trace s @ map EvPrepare (take n xs)"
      "r1 = None \<longrightarrow> n = length xs"
    by blast
  show ?thesis
  proof (cases r1)
    case (Some err)
    then have "r = Some err" "s' = s1" using assms p by (simp_all add: runUpdatePass_mutation_def)
    then show ?thesis using n p Some by (intro exI [of _ n] exI [of _ "[]"]) simp
  next
    case None
    then have nl: "n = length xs" using n by simp
    obtain r2 s2 where u: "forEach (update_step E) xs s1 = (r2, s2)"
      by (cases "forEach (update_step E) xs s1")
    from forEach_update_trace [of E xs s1] u obtain e2 where
      e2: "trace s2 = trace s1 @ e2" "prepared e2 = []" "forced e2 = forced_updates E xs s1"
      by auto
    have sub: "subseq (forced e2) xs" using e2(3) subseq_forced_updates [of E xs s1] by simp
    show ?thesis
    proof (cases r2)
      case (Some err)
      then have "r = Some err" "s' = s2"
        using assms p u None by (simp_all add: runUpdatePass_mutation_def)
      then show ?thesis using n nl e2 sub p
        by (intro exI [of _ n] exI [of _ e2]) simp
    next
      case n2: None
      have "runImmediateEffects E (s2\<lparr>areImmediateEffectsPending := False\<rparr>) = Some (r, s')"
        using assms p u None n2 by (simp add: runUpdatePass_mutation_def)
      from runImmediateEffects_trace [OF this] obtain cbs where
        "trace s' = trace s2 @ map EvInvoke cbs"
        by auto
      then show ?thesis using n nl e2 sub p
        by (intro exI [of _ n] exI [of _ "e2 @ map EvInvoke cbs"]) simp
    qed
  qed
qed

lemma runUpdatePass_mutation_returns:
  assumes sc: "\<forall>cb. scoped (callbacks E cb)" and rn: "\<forall>f p. keeps_queues (components E f p)"
    and q: "queues_ok s"
  shows "\<exists>y. runUpdatePass_mutation E xs s = Some y"
proof -
  obtain r1 s1 where p: "forEach prepare_step xs s = (r1, s1)"
    by (cases "forEach prepare_step xs s")
  have q1: "queues_ok s1" using forEach_prepare_queues_ok [OF q, of xs] p by simp
  obtain r2 s2 where u: "forEach (update_step E) xs s1 = (r2, s2)"
    by (cases "forEach (update_step E) xs s1")
  have q2: "queues_ok (s2\<lparr>areImmediateEffectsPending := False\<rparr>)"
    using forEach_update_queues_ok [OF sc rn q1, of xs] u by (simp add: queues_ok_def)
  from runImmediateEffects_returns [OF sc q2] show ?thesis
    using p u by (cases r1; cases r2) (auto simp: runUpdatePass_mutation_def)
qed

lemma distinct_Set_add: "distinct xs \<Longrightarrow> distinct (Set_add x xs)"
  by (simp add: Set_add_def)

lemma distinct_enqueueUpdate:
  "distinct (instancesPendingUpdate s) \<Longrightarrow>
   distinct (instancesPendingUpdate (fold enqueueUpdate reqs s))"
  by (induction reqs arbitrary: s) (simp_all add: enqueueUpdate_def distinct_Set_add)

lemma runUpdatePass_measure_result:
  assumes "runUpdatePass_measure E s = Some (Inr xs, s1)"
  shows "xs = sort_key (\<lambda>a. inst_id (instances s a)) (instancesPendingUpdate s)"
  using assms
  by (auto simp: runUpdatePass_measure_def Let_def
      split: prod.splits option.splits)

text \<open>
  C2. Let the callbacks be scoped and the render functions keep the queues. Then both
  phases return. The array that the read phase hands to the write phase is the pending set
  sorted by ascending id, with the same members, each once (a set built by
  \<^verbatim>\<open>enqueueUpdate\<close> holds an instance once). In the write phase, the scheduler's
  trace is: the prepare steps of the instances in array order, then everything else; no
  prepare step comes after that, and none is force-updated unless all were prepared. When
  no prepare step throws, all instances are prepared and the force-updated instances are
  exactly \<open>forced_updates\<close>: every instance of the array, in array order, whose id is
  not in the exclusion set when its turn comes (up to a step that throws). An instance
  whose id is in the exclusion set at its turn is skipped by the update step: nothing
  happens; any other is handed to \<^verbatim>\<open>forceUpdateComponent\<close>. The prepare step does
  not look at the exclusion set, and for a mounted instance it copies every staged value
  into the live value.
\<close>

theorem flush_pass_order:
  assumes "\<forall>cb. scoped (callbacks E cb)" and "\<forall>f p. keeps_queues (components E f p)"
  shows "(queues_ok s \<longrightarrow> (\<exists>y. runUpdatePass_measure E s = Some y))
   \<and> (runUpdatePass_measure E s = Some (Inr xs, s1) \<longrightarrow>
      xs = sort_key (\<lambda>a. inst_id (instances s a)) (instancesPendingUpdate s) \<and>
      sorted (map (\<lambda>a. inst_id (instances s a)) xs) \<and>
      set xs = set (instancesPendingUpdate s) \<and>
      (distinct (instancesPendingUpdate s) \<longrightarrow> distinct xs))
   \<and> distinct (instancesPendingUpdate
        (fold enqueueUpdate reqs (s\<lparr>instancesPendingUpdate := []\<rparr>)))
   \<and> (queues_ok t \<longrightarrow> (\<exists>y. runUpdatePass_mutation E ys t = Some y))
   \<and> (runUpdatePass_mutation E ys t = Some (r, t') \<longrightarrow>
        (\<exists>n evs. n \<le> length ys \<and> trace t' = trace t @ map EvPrepare (take n ys) @ evs \<and>
           prepared evs = [] \<and> subseq (forced evs) ys \<and>
           (forced evs \<noteq> [] \<longrightarrow> n = length ys) \<and> (r = None \<longrightarrow> n = length ys) \<and>
           (fst (forEach prepare_step ys t) = None \<longrightarrow>
              n = length ys \<and>
              forced evs = forced_updates E ys (snd (forEach prepare_step ys t)))))
   \<and> (\<forall>a u. inst_id (instances u a) \<in> idsToExcludeFromUpdate u \<longrightarrow>
          update_step E a u = (None, u))
   \<and> (\<forall>a u. inst_id (instances u a) \<notin> idsToExcludeFromUpdate u \<longrightarrow>
          update_step E a u = forceUpdateComponent E a (log_event (EvForceUpdate a) u))
   \<and> (\<forall>a u X. prepare_step a (u\<lparr>idsToExcludeFromUpdate := X\<rparr>) =
          (fst (prepare_step a u), (snd (prepare_step a u))\<lparr>idsToExcludeFromUpdate := X\<rparr>))
   \<and> (\<forall>a u. isMounted (instances u a) \<and> hooks (instances u a) \<noteq> None \<longrightarrow>
          fst (prepare_step a u) = None \<and>
          state_slots (snd (prepare_step a u)) a =
            map (\<lambda>hook. hook\<lparr>sValue := nextValue hook\<rparr>) (state_slots u a))"
proof -
  have 0: "\<exists>y. runUpdatePass_measure E s = Some y" if "queues_ok s"
    using runUpdatePass_measure_returns [OF assms(1) that] .
  have 1: "xs = sort_key (\<lambda>a. inst_id (instances s a)) (instancesPendingUpdate s) \<and>
      sorted (map (\<lambda>a. inst_id (instances s a)) xs) \<and>
      set xs = set (instancesPendingUpdate s) \<and>
      (distinct (instancesPendingUpdate s) \<longrightarrow> distinct xs)"
    if "runUpdatePass_measure E s = Some (Inr xs, s1)"
    using runUpdatePass_measure_result [OF that] by simp
  have 2: "distinct (instancesPendingUpdate
        (fold enqueueUpdate reqs (s\<lparr>instancesPendingUpdate := []\<rparr>)))"
    by (rule distinct_enqueueUpdate) simp
  have 3: "\<exists>y. runUpdatePass_mutation E ys t = Some y" if "queues_ok t"
    using runUpdatePass_mutation_returns [OF assms that] .
  have 4: "\<exists>n evs. n \<le> length ys \<and> trace t' = trace t @ map EvPrepare (take n ys) @ evs \<and>
           prepared evs = [] \<and> subseq (forced evs) ys \<and>
           (forced evs \<noteq> [] \<longrightarrow> n = length ys) \<and> (r = None \<longrightarrow> n = length ys) \<and>
           (fst (forEach prepare_step ys t) = None \<longrightarrow>
              n = length ys \<and>
              forced evs = forced_updates E ys (snd (forEach prepare_step ys t)))"
    if "runUpdatePass_mutation E ys t = Some (r, t')"
    using runUpdatePass_mutation_trace [OF that] .
  have 5: "\<forall>a u. inst_id (instances u a) \<in> idsToExcludeFromUpdate u \<longrightarrow>
          update_step E a u = (None, u)"
    by (simp add: update_step_def)
  have 6: "\<forall>a u. inst_id (instances u a) \<notin> idsToExcludeFromUpdate u \<longrightarrow>
          update_step E a u = forceUpdateComponent E a (log_event (EvForceUpdate a) u)"
    by (simp add: update_step_def)
  have 7: "\<forall>a u X. prepare_step a (u\<lparr>idsToExcludeFromUpdate := X\<rparr>) =
          (fst (prepare_step a u), (snd (prepare_step a u))\<lparr>idsToExcludeFromUpdate := X\<rparr>)"
    by (simp add: prepare_step_def prepareComponentForFrame_def log_event_def upd_inst_def
        split: option.splits)
  have 8: "fst (prepare_step a u) = None \<and>
          state_slots (snd (prepare_step a u)) a =
            map (\<lambda>hook. hook\<lparr>sValue := nextValue hook\<rparr>) (state_slots u a)"
    if "isMounted (instances u a) \<and> hooks (instances u a) \<noteq> None" for a u
    using prepare_slots [of "log_event (EvPrepare a) u" a] that
    by (simp add: prepare_step_def log_event_def state_slots_def)
  show ?thesis using 0 1 2 3 4 5 6 7 8 by blast
qed

lemma parent_code_scoped:
  "\<forall>cb. scoped (callbacks parent_code cb)" "\<forall>f p. keeps_queues (components parent_code f p)"
  by (auto simp: scoped_def keeps_queues_def parent_code_def queues_ok_def out_of_reach_def)

theorem flush_pass_order_witness:
  "(\<forall>cb. scoped (callbacks parent_code cb))
   \<and> (\<forall>f p. keeps_queues (components parent_code f p))
   \<and> queues_ok example_two
   \<and> instancesPendingUpdate example_two = [10, 5]
   \<and> inst_id (instances example_two 5) = 1 \<and> inst_id (instances example_two 10) = 2
   \<and> runUpdatePass_measure parent_code example_two =
        Some (Inr [5, 10], snd (the (runUpdatePass_measure parent_code example_two)))
   \<and> sorted (map (\<lambda>a. inst_id (instances example_two a)) [5, 10])
   \<and> queues_ok (snd (the (runUpdatePass_measure parent_code example_two)))
   \<and> (case runUpdatePass_mutation parent_code [5, 10]
          (snd (the (runUpdatePass_measure parent_code example_two))) of
        None \<Rightarrow> False
      | Some (r, s') \<Rightarrow>
          r = None \<and>
          trace s' = trace example_two @
            [EvPrepare 5, EvPrepare 10, EvForceUpdate 5, EvRender 5, EvInvoke 0] \<and>
          idsToExcludeFromUpdate s' = {1, 2})
   \<and> forced_updates parent_code [5, 10] (snd (forEach prepare_step [5, 10]
          (snd (the (runUpdatePass_measure parent_code example_two))))) = [5]
   \<and> (case runUpdatePass_mutation parent_code [5, 10]
          (snd (the (runUpdatePass_measure parent_code example_two_apart))) of
        None \<Rightarrow> False
      | Some (r, s') \<Rightarrow>
          r = None \<and>
          trace s' = trace example_two_apart @
            [EvPrepare 5, EvPrepare 10, EvForceUpdate 5, EvRender 5, EvInvoke 1,
             EvForceUpdate 10, EvRender 10, EvInvoke 1])
   \<and> forced_updates parent_code [5, 10] (snd (forEach prepare_step [5, 10]
          (snd (the (runUpdatePass_measure parent_code example_two_apart))))) = [5, 10]
   \<and> inst_id (instances (example_two\<lparr>idsToExcludeFromUpdate := {2}\<rparr>) 10) \<in>
        idsToExcludeFromUpdate (example_two\<lparr>idsToExcludeFromUpdate := {2}\<rparr>)
   \<and> update_step parent_code 10 (example_two\<lparr>idsToExcludeFromUpdate := {2}\<rparr>) =
        (None, example_two\<lparr>idsToExcludeFromUpdate := {2}\<rparr>)
   \<and> isMounted (instances example_two 10) \<and> hooks (instances example_two 10) \<noteq> None
   \<and> fst (prepare_step 10 example_two) = None"
proof -
  note sc = parent_code_scoped
  have q: "queues_ok example_two" by code_simp
  have p: "instancesPendingUpdate example_two = [10, 5]" by code_simp
  have i: "inst_id (instances example_two 5) = 1" "inst_id (instances example_two 10) = 2"
    by code_simp+
  note t = flush_pass_order [OF sc, of example_two "[5, 10]"
      "snd (the (runUpdatePass_measure parent_code example_two))" "[]"
      "snd (the (runUpdatePass_measure parent_code example_two))" "[5, 10]"]
  have m0: "map_option fst (runUpdatePass_measure parent_code example_two) = Some (Inr [5, 10])"
    by code_simp
  then have m: "runUpdatePass_measure parent_code example_two =
        Some (Inr [5, 10], snd (the (runUpdatePass_measure parent_code example_two)))"
    by (cases "runUpdatePass_measure parent_code example_two") auto
  have qm: "queues_ok (snd (the (runUpdatePass_measure parent_code example_two)))"
    by code_simp
  have w: "(case runUpdatePass_mutation parent_code [5, 10]
          (snd (the (runUpdatePass_measure parent_code example_two))) of
        None \<Rightarrow> False
      | Some (r, s') \<Rightarrow>
          r = None \<and>
          trace s' = trace example_two @
            [EvPrepare 5, EvPrepare 10, EvForceUpdate 5, EvRender 5, EvInvoke 0] \<and>
          idsToExcludeFromUpdate s' = {1, 2})"
    by code_simp
  have fu: "forced_updates parent_code [5, 10] (snd (forEach prepare_step [5, 10]
          (snd (the (runUpdatePass_measure parent_code example_two))))) = [5]"
    by code_simp
  have w2: "(case runUpdatePass_mutation parent_code [5, 10]
          (snd (the (runUpdatePass_measure parent_code example_two_apart))) of
        None \<Rightarrow> False
      | Some (r, s') \<Rightarrow>
          r = None \<and>
          trace s' = trace example_two_apart @
            [EvPrepare 5, EvPrepare 10, EvForceUpdate 5, EvRender 5, EvInvoke 1,
             EvForceUpdate 10, EvRender 10, EvInvoke 1])"
    by code_simp
  have fu2: "forced_updates parent_code [5, 10] (snd (forEach prepare_step [5, 10]
          (snd (the (runUpdatePass_measure parent_code example_two_apart))))) = [5, 10]"
    by code_simp
  have mh: "isMounted (instances example_two 10)" "hooks (instances example_two 10) \<noteq> None"
    by code_simp+
  have x: "inst_id (instances (example_two\<lparr>idsToExcludeFromUpdate := {2}\<rparr>) 10) \<in>
        idsToExcludeFromUpdate (example_two\<lparr>idsToExcludeFromUpdate := {2}\<rparr>)"
    by (simp add: i)
  have s: "sorted (map (\<lambda>a. inst_id (instances example_two a)) [5, 10])"
    using t m by blast
  have u: "update_step parent_code 10 (example_two\<lparr>idsToExcludeFromUpdate := {2}\<rparr>) =
        (None, example_two\<lparr>idsToExcludeFromUpdate := {2}\<rparr>)"
    using t x by blast
  have f: "fst (prepare_step 10 example_two) = None"
    using t mh by blast
  show ?thesis using sc q p i m s qm w fu w2 fu2 x u mh f by blast
qed

end
